theory Spec2Isabelle
  imports Main
begin

section \<open>g2o string tools: a shallow embedding of string\_tools.cpp\<close>

text \<open>
  The development follows \<^verbatim>\<open>Thirdparty/g2o/g2o/stuff/string_tools.cpp\<close>: the
  functions \<^verbatim>\<open>trim\<close>, \<^verbatim>\<open>strSplit\<close> and \<^verbatim>\<open>readLine\<close>, and the formatted-string
  builder \<^verbatim>\<open>portable_vasprintf\<close> with its callers \<^verbatim>\<open>portable_asprintf\<close> and
  \<^verbatim>\<open>formatString\<close>. The functions of the C and C++ libraries they call
  (\<^verbatim>\<open>std::string\<close> searches, stream reads, \<^verbatim>\<open>malloc\<close>, \<^verbatim>\<open>realloc\<close>,
  \<^verbatim>\<open>free\<close>, \<^verbatim>\<open>vsnprintf\<close>, \<^verbatim>\<open>std::raise\<close>) are modelled by their contracts.

  Strings are \<^typ>\<open>string\<close> (byte lists). Values of \<^verbatim>\<open>std::string::size_type\<close>
  are natural numbers below \<open>2^64\<close>, with the unsigned wrap-around of the
  source's arithmetic written out; \<^verbatim>\<open>std::string::npos\<close> is the largest of them.
  A C++ exception is a value of the sum type \<open>cxx_exn + 'a\<close>.
\<close>

subsection \<open>Characters, sizes and the std::string operations the code calls\<close>

definition NUL :: char where
  "NUL = CHR 0x00"

definition TAB :: char where
  "TAB = CHR 0x09"

definition NL :: char where
  "NL = CHR 0x0A"

definition SPC :: char where
  "SPC = CHR '' ''"

definition size_mod :: nat where
  "size_mod = 18446744073709551616"

definition npos :: nat where
  "npos = size_mod - 1"

definition size_add :: "nat \<Rightarrow> nat \<Rightarrow> nat" where
  "size_add a b = (a + b) mod size_mod"

definition size_sub :: "nat \<Rightarrow> nat \<Rightarrow> nat" where
  "size_sub a b = (a + size_mod - b mod size_mod) mod size_mod"

datatype cxx_exn = Out_of_range

text \<open>
  \<^verbatim>\<open>s.find_first_not_of(chars)\<close>: the first position whose character is not in
  \<open>chars\<close>, or \<open>npos\<close>. A position is a \<open>size_type\<close>, so it is below \<open>npos\<close>.
\<close>

definition find_first_not_of :: "string \<Rightarrow> string \<Rightarrow> nat" where
  "find_first_not_of s chars =
     (let n = length (takeWhile (\<lambda>c. c \<in> set chars) s)
      in if n < length s \<and> n < npos then n else npos)"

text \<open>\<^verbatim>\<open>s.find_last_not_of(chars)\<close>: the last such position, or \<open>npos\<close>.\<close>

definition find_last_not_of :: "string \<Rightarrow> string \<Rightarrow> nat" where
  "find_last_not_of s chars =
     (let n = length (takeWhile (\<lambda>c. c \<in> set chars) (rev s))
      in if n < length s \<and> length s - Suc n < npos then length s - Suc n else npos)"

text \<open>
  \<^verbatim>\<open>s.find_first_of(chars, pos)\<close>: the first position at or after \<open>pos\<close> whose
  character is in \<open>chars\<close>, or \<open>npos\<close>.
\<close>

definition find_first_of :: "string \<Rightarrow> string \<Rightarrow> nat \<Rightarrow> nat" where
  "find_first_of s chars pos =
     (let n = length (takeWhile (\<lambda>c. c \<notin> set chars) (drop pos s))
      in if pos + n < length s \<and> pos + n < npos then pos + n else npos)"

text \<open>
  \<^verbatim>\<open>s.substr(pos, n)\<close> and the constructor \<^verbatim>\<open>std::string(s, pos, n)\<close>: at most
  \<open>n\<close> characters from \<open>pos\<close> on; \<^verbatim>\<open>std::out_of_range\<close> when \<open>pos\<close> is
  beyond the end.
\<close>

definition substr :: "string \<Rightarrow> nat \<Rightarrow> nat \<Rightarrow> cxx_exn + string" where
  "substr s pos n =
     (if length s < pos then Inl Out_of_range else Inr (take n (drop pos s)))"

subsection \<open>trim\<close>

definition whitespace :: string where
  "whitespace = [SPC, TAB, NL]"

definition trim :: "string \<Rightarrow> cxx_exn + string" where
  "trim s =
     (if length s = 0 then Inr s
      else
        let b = find_first_not_of s whitespace;
            e = find_last_not_of s whitespace
        in if b = npos then Inr ''''
           else substr s b (size_add (size_sub e b) 1))"

subsection \<open>strSplit\<close>

text \<open>
  The body of the \<^verbatim>\<open>do ... while (string::npos != pos)\<close> loop, with the loop
  variables \<open>tokens\<close> and \<open>lastPos\<close> as arguments.
\<close>

function strSplit_loop :: "string \<Rightarrow> string \<Rightarrow> string list \<Rightarrow> nat \<Rightarrow> cxx_exn + string list" where
  "strSplit_loop str delimiters tokens lastPos =
     (let pos = find_first_of str delimiters lastPos
      in case substr str lastPos (size_sub pos lastPos) of
           Inl e \<Rightarrow> Inl e
         | Inr tok \<Rightarrow>
             let tokens' = tokens @ [tok];
                 lastPos' = size_add pos 1
             in if npos \<noteq> pos then strSplit_loop str delimiters tokens' lastPos'
                else Inr tokens')"
  by pat_completeness auto

lemma find_first_of_range:
  "find_first_of s chars pos \<noteq> npos \<Longrightarrow>
     pos \<le> find_first_of s chars pos \<and> find_first_of s chars pos < length s
     \<and> find_first_of s chars pos < npos"
  by (auto simp: find_first_of_def Let_def split: if_splits)

lemma size_add_small: "a < npos \<Longrightarrow> size_add a (Suc 0) = Suc a"
  by (simp add: size_add_def npos_def)

termination strSplit_loop
proof (relation "measure (\<lambda>(str, delimiters, tokens, lastPos). length str - lastPos)")
  show "wf (measure (\<lambda>(str, delimiters, tokens, lastPos). length str - lastPos))"
    by simp
next
  fix str delimiters :: string and tokens :: "string list" and lastPos pos :: nat
    and x2 :: string and xa :: "string list" and xb :: nat
  assume pos: "pos = find_first_of str delimiters lastPos"
    and xb: "xb = size_add pos 1"
    and ne: "npos \<noteq> pos"
  from pos ne have r: "lastPos \<le> pos" "pos < length str" "pos < npos"
    using find_first_of_range [of str delimiters lastPos] by auto
  with xb have "xb = Suc pos"
    by (simp add: size_add_small)
  with r show "((str, delimiters, xa, xb), str, delimiters, tokens, lastPos)
      \<in> measure (\<lambda>(str, delimiters, tokens, lastPos). length str - lastPos)"
    by simp
qed

declare strSplit_loop.simps [simp del]

definition strSplit :: "string \<Rightarrow> string \<Rightarrow> cxx_exn + string list" where
  "strSplit str delimiters = strSplit_loop str delimiters [] 0"

subsection \<open>readLine\<close>

text \<open>
  A \<^verbatim>\<open>std::istream\<close> is the characters not yet read and the three bits of its
  \<^verbatim>\<open>iostate\<close>. \<open>stream_good\<close>, \<open>stream_fail\<close> and \<open>stream_clear\<close> are
  \<^verbatim>\<open>good()\<close>, \<^verbatim>\<open>fail()\<close> and \<^verbatim>\<open>clear()\<close>; \<^verbatim>\<open>eof()\<close> is the field
  \<open>eofbit\<close>.
\<close>

record istream =
  unread :: string
  eofbit :: bool
  failbit :: bool
  badbit :: bool

definition stream_good :: "istream \<Rightarrow> bool" where
  "stream_good st = (\<not> eofbit st \<and> \<not> failbit st \<and> \<not> badbit st)"

definition stream_fail :: "istream \<Rightarrow> bool" where
  "stream_fail st = (failbit st \<or> badbit st)"

definition stream_clear :: "istream \<Rightarrow> istream" where
  "stream_clear st = st\<lparr>eofbit := False, failbit := False, badbit := False\<rparr>"

text \<open>
  \<^verbatim>\<open>is.get(streambuf&)\<close>, an unformatted input function with delimiter
  \<^verbatim>\<open>'\n'\<close>: on a stream that is not good it only sets \<open>failbit\<close>; otherwise it
  moves characters to the destination until the next character is the delimiter
  (which stays unread) or the input ends (\<open>eofbit\<close>), and sets \<open>failbit\<close> when
  it moved none.
\<close>

definition stream_get_line :: "istream \<Rightarrow> istream \<times> string" where
  "stream_get_line st =
     (if \<not> stream_good st then (st\<lparr>failbit := True\<rparr>, [])
      else
        let got = takeWhile (\<lambda>c. c \<noteq> NL) (unread st);
            rest = dropWhile (\<lambda>c. c \<noteq> NL) (unread st)
        in (st\<lparr>unread := rest, eofbit := (rest = []), failbit := (got = [])\<rparr>, got))"

text \<open>
  \<^verbatim>\<open>is.get(c)\<close>: on a stream that is not good it only sets \<open>failbit\<close>; at the
  end of the input it sets \<open>eofbit\<close> and \<open>failbit\<close>; in both cases \<open>c\<close> keeps its
  value.
\<close>

definition stream_get_char :: "istream \<Rightarrow> char \<Rightarrow> istream \<times> char" where
  "stream_get_char st c =
     (if \<not> stream_good st then (st\<lparr>failbit := True\<rparr>, c)
      else case unread st of
             [] \<Rightarrow> (st\<lparr>eofbit := True, failbit := True\<rparr>, c)
           | x # xs \<Rightarrow> (st\<lparr>unread := xs\<rparr>, x))"

text \<open>
  Modelled from the spec: the macro \<^verbatim>\<open>G2O_FSKIP_LINE\<close> of \<^verbatim>\<open>macros.h\<close>, which is
  not among the sources. The spec has the line reader "discard the newline" after
  the extraction, and the call site says \<^verbatim>\<open>read \n not read by get()\<close>. The macro is
  the loop
  \<^verbatim>\<open>{char c=' '; while (c != '\n' && f.good() && !(f).eof()) (f).get(c);}\<close>:
  it reads single characters until it has read a newline or the stream is no
  longer good.
\<close>

function fskip_loop :: "char \<Rightarrow> istream \<Rightarrow> istream" where
  "fskip_loop c st =
     (if c \<noteq> NL \<and> stream_good st \<and> \<not> eofbit st
      then (case stream_get_char st c of (st', c') \<Rightarrow> fskip_loop c' st')
      else st)"
  by pat_completeness auto

termination
  by (relation "measure (\<lambda>(c, st). length (unread st) + (if stream_good st then 1 else 0))")
     (auto simp: stream_get_char_def stream_good_def split: list.splits if_splits)

declare fskip_loop.simps [simp del]

definition G2O_FSKIP_LINE :: "istream \<Rightarrow> istream" where
  "G2O_FSKIP_LINE st = fskip_loop SPC st"

text \<open>
  The C type \<^verbatim>\<open>int\<close> has 32 bits: \<open>int_wrap\<close> is the value a conversion to
  \<^verbatim>\<open>int\<close> yields in two's complement, and the value the machine computes for an
  addition that leaves the range (which the C standard leaves undefined).
\<close>

definition INT_MAX :: int where
  "INT_MAX = 2147483647"

definition int_wrap :: "int \<Rightarrow> int" where
  "int_wrap x = (x + 2147483648) mod 4294967296 - 2147483648"

text \<open>
  \<open>readLine\<close> takes the stream and the content of \<open>currentLine\<close>, and returns both
  with the function's result.
\<close>

definition readLine :: "istream \<Rightarrow> string \<Rightarrow> istream \<times> string \<times> int" where
  "readLine st currentLine =
     (if eofbit st then (st, currentLine, - 1)
      else
        let emptied = '''';
            (st1, got) = stream_get_line st;
            currentLine' = emptied @ got;
            st2 = (if stream_fail st1 then stream_clear st1 else st1);
            st3 = G2O_FSKIP_LINE st2
        in (st3, currentLine', int_wrap (int (length currentLine'))))"

text \<open>
  \<open>readLine_repeat n\<close> calls \<open>readLine\<close> \<open>n\<close> times on the same stream and line
  buffer, and lists the line buffer and the result after each call.
\<close>

fun readLine_repeat :: "nat \<Rightarrow> istream \<Rightarrow> string \<Rightarrow> (string \<times> int) list" where
  "readLine_repeat 0 st currentLine = []"
| "readLine_repeat (Suc n) st currentLine =
     (case readLine st currentLine of
        (st', currentLine', r) \<Rightarrow> (currentLine', r) # readLine_repeat n st' currentLine')"

definition open_stream :: "string \<Rightarrow> istream" where
  "open_stream s = \<lparr>unread = s, eofbit = False, failbit = False, badbit = False\<rparr>"

subsection \<open>The process around the formatted-string builder\<close>

text \<open>
  \<open>portable_vasprintf\<close> works on the C heap, on \<^verbatim>\<open>va_list\<close> objects and on the
  process (it raises a signal). The model passes a \<open>world\<close>: the heap, a list of the
  allocated blocks by address, and the trace of the calls made so far. A block is its
  bytes; a byte that was never written is \<open>None\<close>. What the C library and the
  operating system decide (whether an allocation succeeds, whether the signal comes
  back, what the formatter renders) is read from an environment \<open>env\<close>, so every
  theorem holds for each such behaviour. A run that does not return to its caller
  ends in an \<open>abort\<close>.
\<close>

type_synonym addr = nat

type_synonym block = "char option list"

datatype va_name = AP | AP_COPY

datatype event =
    Raise_SIGINT
  | Malloc nat "addr option"
  | Realloc addr nat "addr option"
  | Free addr
  | Vsnprintf va_name nat int
  | Cerr_message

datatype abort =
    Killed_by_SIGINT
  | UB_invalid_free
  | UB_invalid_realloc
  | UB_va_list
  | UB_buffer_overrun
  | UB_null_string
  | UB_unterminated_string

text \<open>
  A \<^verbatim>\<open>va_list\<close> is single-use: \<^verbatim>\<open>va_start\<close> and \<^verbatim>\<open>va_copy\<close> make it
  \<open>Va_active\<close> on the arguments, a function that reads the arguments through it leaves
  it \<open>Va_spent\<close> (its value is indeterminate after the call), and \<^verbatim>\<open>va_end\<close>
  makes it \<open>Va_unset\<close>. Reading arguments through a list that is not active is
  undefined behaviour.
\<close>

datatype 'a va_list = Va_unset | Va_active "'a list" | Va_spent

record world =
  heap :: "(addr \<times> block) list"
  trace :: "event list"

text \<open>
  The environment of one call:
  \<^item> \<open>sigint_returns\<close>: \<^verbatim>\<open>std::raise(SIGINT)\<close> comes back (the signal is ignored or
    handled and the handler returns); under the default disposition it does not, the
    process is terminated;
  \<^item> \<open>malloc_fails\<close>, \<open>realloc_fails\<close>: the allocator returns a null pointer;
  \<^item> \<open>realloc_moves\<close>: a successful \<^verbatim>\<open>realloc\<close> returns a new address rather than
    the old one;
  \<^item> \<open>render\<close>: the reference formatter, the fully rendered text of a template and
    its arguments;
  \<^item> \<open>render_error k\<close>: whether the \<open>k\<close>-th call of the bounded-format primitive
    within the builder (0 the probe pass, 1 the retry pass) reports an error on this
    template and these arguments; \<open>Some e\<close> is the negative return value \<open>-(e+1)\<close>
    (the C standard promises a negative value, not which).
\<close>

record 'a env =
  sigint_returns :: bool
  malloc_fails :: bool
  realloc_fails :: bool
  realloc_moves :: bool
  render :: "string \<Rightarrow> 'a list \<Rightarrow> string"
  render_error :: "nat \<Rightarrow> string \<Rightarrow> 'a list \<Rightarrow> nat option"

definition log :: "event \<Rightarrow> world \<Rightarrow> world" where
  "log e w = w\<lparr>trace := trace w @ [e]\<rparr>"

text \<open>\<^verbatim>\<open>(size_t) n\<close> for an \<^verbatim>\<open>int\<close> \<open>n\<close>.\<close>

definition to_size_t :: "int \<Rightarrow> nat" where
  "to_size_t n = nat (n mod 18446744073709551616)"

text \<open>
  The address of a new block: one that no block of the heap has, and not the null
  pointer's. The allocator of the model always takes the address after the largest
  one in use; no theorem below reads more from it than that the address is fresh.
\<close>

definition fresh :: "(addr \<times> block) list \<Rightarrow> addr" where
  "fresh h = Suc (fold max (map fst h) 0)"

definition release :: "addr \<Rightarrow> (addr \<times> block) list \<Rightarrow> (addr \<times> block) list" where
  "release a h = filter (\<lambda>(x, b). x \<noteq> a) h"

definition store :: "addr \<Rightarrow> block \<Rightarrow> (addr \<times> block) list \<Rightarrow> (addr \<times> block) list" where
  "store a blk h = map (\<lambda>(x, b). if x = a then (x, blk) else (x, b)) h"

definition raise_SIGINT :: "'a env \<Rightarrow> world \<Rightarrow> world \<times> (abort + unit)" where
  "raise_SIGINT env w =
     (log Raise_SIGINT w, if sigint_returns env then Inr () else Inl Killed_by_SIGINT)"

definition malloc :: "'a env \<Rightarrow> nat \<Rightarrow> world \<Rightarrow> world \<times> addr option" where
  "malloc env n w =
     (if malloc_fails env then (log (Malloc n None) w, None)
      else
        let a = fresh (heap w)
        in (log (Malloc n (Some a)) (w\<lparr>heap := (a, replicate n None) # heap w\<rparr>), Some a))"

text \<open>
  \<^verbatim>\<open>free(p)\<close>: nothing for the null pointer; undefined behaviour for an address
  that is not (or no longer) allocated.
\<close>

definition free :: "addr option \<Rightarrow> world \<Rightarrow> world \<times> (abort + unit)" where
  "free p w =
     (case p of
        None \<Rightarrow> (w, Inr ())
      | Some a \<Rightarrow>
          (case map_of (heap w) a of
             None \<Rightarrow> (w, Inl UB_invalid_free)
           | Some b \<Rightarrow> (log (Free a) (w\<lparr>heap := release a (heap w)\<rparr>), Inr ())))"

text \<open>
  \<^verbatim>\<open>realloc(p, n)\<close> for a non-null \<open>p\<close>: on failure the old block stays as it is;
  on success the old block is gone and the new one, of \<open>n\<close> bytes, starts with the old
  content.
\<close>

definition realloc :: "'a env \<Rightarrow> addr \<Rightarrow> nat \<Rightarrow> world \<Rightarrow> world \<times> (abort + addr option)" where
  "realloc env a n w =
     (case map_of (heap w) a of
        None \<Rightarrow> (w, Inl UB_invalid_realloc)
      | Some old \<Rightarrow>
          if realloc_fails env then (log (Realloc a n None) w, Inr None)
          else
            let a' = (if realloc_moves env then fresh (heap w) else a);
                blk = take n old @ replicate (n - length old) None
            in (log (Realloc a n (Some a')) (w\<lparr>heap := (a', blk) # release a (heap w)\<rparr>),
                Inr (Some a')))"

definition va_copy :: "'a va_list \<Rightarrow> abort + 'a va_list" where
  "va_copy src = (case src of Va_active args \<Rightarrow> Inr (Va_active args) | _ \<Rightarrow> Inl UB_va_list)"

definition va_end :: "'a va_list \<Rightarrow> abort + 'a va_list" where
  "va_end v = (case v of Va_unset \<Rightarrow> Inl UB_va_list | _ \<Rightarrow> Inr Va_unset)"

text \<open>
  The bounded-format primitive \<^verbatim>\<open>vsnprintf(buf, n, fmt, va)\<close>, by its contract: it
  reads the arguments through \<open>va\<close>; it returns a negative value on an error, also
  when the rendered length is not an \<^verbatim>\<open>int\<close>; otherwise it writes the first
  \<open>n - 1\<close> characters of the rendered text and a terminator (nothing when \<open>n = 0\<close>)
  and returns the length of the whole rendered text. On an error the buffer is left
  as it was (the builder never reads it then). \<open>k\<close> counts the calls, \<open>nm\<close> names
  the argument list for the trace.
\<close>

definition vsnprintf ::
  "'a env \<Rightarrow> nat \<Rightarrow> va_name \<Rightarrow> addr \<Rightarrow> nat \<Rightarrow> string \<Rightarrow> 'a va_list \<Rightarrow> world
     \<Rightarrow> world \<times> (abort + int \<times> 'a va_list)" where
  "vsnprintf env k nm buf n fmt va w =
     (case va of
        Va_active args \<Rightarrow>
          (case render_error env k fmt args of
             Some e \<Rightarrow>
               (log (Vsnprintf nm n (- int (Suc e))) w, Inr (- int (Suc e), Va_spent))
           | None \<Rightarrow>
               let s = render env fmt args
               in if INT_MAX < int (length s)
                  then (log (Vsnprintf nm n (- 1)) w, Inr (- 1, Va_spent))
                  else
                    (case map_of (heap w) buf of
                       None \<Rightarrow> (w, Inl UB_buffer_overrun)
                     | Some blk \<Rightarrow>
                         let out = (if n = 0 then []
                                    else map Some (take (n - 1) s) @ [Some NUL])
                         in if length blk < length out then (w, Inl UB_buffer_overrun)
                            else
                              (log (Vsnprintf nm n (int (length s)))
                                 (w\<lparr>heap := store buf (out @ drop (length out) blk) (heap w)\<rparr>),
                               Inr (int (length s), Va_spent))))
      | _ \<Rightarrow> (w, Inl UB_va_list))"

subsection \<open>portable\_vasprintf and portable\_asprintf\<close>

text \<open>
  \<^verbatim>\<open>va_end(ap_copy); return r;\<close> where \<open>r\<close> is the returned \<^verbatim>\<open>int\<close>, the
  content of \<^verbatim>\<open>*strp\<close> and the caller's argument list.
\<close>

definition va_end_return ::
  "'a va_list \<Rightarrow> world \<Rightarrow> int \<times> addr option \<times> 'a va_list
     \<Rightarrow> world \<times> (abort + int \<times> addr option \<times> 'a va_list)" where
  "va_end_return ap_copy w r =
     (case va_end ap_copy of Inl x \<Rightarrow> (w, Inl x) | Inr u \<Rightarrow> (w, Inr r))"

text \<open>
  \<open>portable_vasprintf env strp fmt ap w\<close>: \<open>strp\<close> is the content of \<^verbatim>\<open>*strp\<close> at
  the call. The result is the returned \<^verbatim>\<open>int\<close>, the content of \<^verbatim>\<open>*strp\<close> and
  the state of the caller's \<open>ap\<close> at the return.
\<close>

definition portable_vasprintf ::
  "'a env \<Rightarrow> addr option \<Rightarrow> string \<Rightarrow> 'a va_list \<Rightarrow> world
     \<Rightarrow> world \<times> (abort + int \<times> addr option \<times> 'a va_list)" where
  "portable_vasprintf env strp fmt ap w =
     (case raise_SIGINT env w of
        (w0, Inl x) \<Rightarrow> (w0, Inl x)
      | (w0, Inr u) \<Rightarrow>
     let length0 = 512
     in case malloc env (to_size_t length0) w0 of
        (w1, None) \<Rightarrow> (w1, Inr (- 1, strp, ap))
      | (w1, Some buffer) \<Rightarrow>
     (case va_copy ap of
        Inl x \<Rightarrow> (w1, Inl x)
      | Inr ap_copy \<Rightarrow>
     (case vsnprintf env 0 AP_COPY buffer (to_size_t length0) fmt ap_copy w1 of
        (w2, Inl x) \<Rightarrow> (w2, Inl x)
      | (w2, Inr (nchars, ap_copy')) \<Rightarrow>
          if nchars < 0 then
            (case free (Some buffer) w2 of
               (w3, Inl x) \<Rightarrow> (w3, Inl x)
             | (w3, Inr u) \<Rightarrow> va_end_return ap_copy' w3 (- 1, strp, ap))
          else if nchars < length0 then
            va_end_return ap_copy' w2 (nchars, Some buffer, ap)
          else
            let length1 = int_wrap (nchars + 1)
            in case realloc env buffer (to_size_t length1) w2 of
                 (w3, Inl x) \<Rightarrow> (w3, Inl x)
               | (w3, Inr None) \<Rightarrow>
                   (case free (Some buffer) w3 of
                      (w4, Inl x) \<Rightarrow> (w4, Inl x)
                    | (w4, Inr u) \<Rightarrow> va_end_return ap_copy' w4 (- 1, strp, ap))
               | (w3, Inr (Some new_buffer)) \<Rightarrow>
                   (case vsnprintf env 1 AP new_buffer (to_size_t length1) fmt ap w3 of
                      (w4, Inl x) \<Rightarrow> (w4, Inl x)
                    | (w4, Inr (nchars', ap')) \<Rightarrow>
                        if nchars' < 0 then
                          (case free (Some new_buffer) w4 of
                             (w5, Inl x) \<Rightarrow> (w5, Inl x)
                           | (w5, Inr u) \<Rightarrow> va_end_return ap_copy' w5 (nchars', strp, ap'))
                        else va_end_return ap_copy' w4 (nchars', Some new_buffer, ap')))))"

text \<open>
  \<open>portable_asprintf env strp fmt args w\<close>: \<open>args\<close> are the variadic arguments;
  \<^verbatim>\<open>va_start\<close> makes the list active on them.
\<close>

definition portable_asprintf ::
  "'a env \<Rightarrow> addr option \<Rightarrow> string \<Rightarrow> 'a list \<Rightarrow> world
     \<Rightarrow> world \<times> (abort + int \<times> addr option)" where
  "portable_asprintf env strp fmt args w =
     (case raise_SIGINT env w of
        (w0, Inl x) \<Rightarrow> (w0, Inl x)
      | (w0, Inr u) \<Rightarrow>
          let ap = Va_active args
          in case portable_vasprintf env strp fmt ap w0 of
               (w1, Inl x) \<Rightarrow> (w1, Inl x)
             | (w1, Inr (result, strp', ap')) \<Rightarrow>
                 (case va_end ap' of
                    Inl x \<Rightarrow> (w1, Inl x)
                  | Inr u \<Rightarrow> (w1, Inr (result, strp'))))"

subsection \<open>formatString\<close>

text \<open>
  The C string at the start of a block: the bytes before the first terminator.
  Reading a byte that was never written, or past the block, is undefined behaviour
  (\<open>None\<close>).
\<close>

fun c_str :: "block \<Rightarrow> string option" where
  "c_str [] = None"
| "c_str (None # bs) = None"
| "c_str (Some c # bs) =
     (if c = NUL then Some [] else map_option (\<lambda>s. c # s) (c_str bs))"

text \<open>
  \<^verbatim>\<open>retString = auxPtr\<close>: the assignment of a \<^verbatim>\<open>char*\<close> to a
  \<^verbatim>\<open>std::string\<close>, undefined behaviour for the null pointer.
\<close>

definition assign_c_str :: "addr option \<Rightarrow> world \<Rightarrow> abort + string" where
  "assign_c_str p w =
     (case p of
        None \<Rightarrow> Inl UB_null_string
      | Some a \<Rightarrow>
          (case map_of (heap w) a of
             None \<Rightarrow> Inl UB_null_string
           | Some blk \<Rightarrow>
               (case c_str blk of None \<Rightarrow> Inl UB_unterminated_string | Some s \<Rightarrow> Inr s)))"

definition formatString :: "'a env \<Rightarrow> string \<Rightarrow> 'a list \<Rightarrow> world \<Rightarrow> world \<times> (abort + string)" where
  "formatString env fmt args w =
     (let auxPtr = None;
          arg_list = Va_active args
      in case portable_vasprintf env auxPtr fmt arg_list w of
           (w1, Inl x) \<Rightarrow> (w1, Inl x)
         | (w1, Inr (numChar, auxPtr', arg_list')) \<Rightarrow>
             (case va_end arg_list' of
                Inl x \<Rightarrow> (w1, Inl x)
              | Inr u \<Rightarrow>
                  (case (if numChar \<noteq> - 1
                         then (w1, assign_c_str auxPtr' w1)
                         else (log Cerr_message w1, Inr ''''))
                   of
                     (w2, Inl x) \<Rightarrow> (w2, Inl x)
                   | (w2, Inr retString) \<Rightarrow>
                       (case free auxPtr' w2 of
                          (w3, Inl x) \<Rightarrow> (w3, Inl x)
                        | (w3, Inr u) \<Rightarrow> (w3, Inr retString)))))"

subsection \<open>Reference definitions, in the words of the specification\<close>

text \<open>
  Trimming as the specification words it: remove the leading and the trailing
  characters drawn from the whitespace set (space, tab, newline).
\<close>

definition is_ws :: "char \<Rightarrow> bool" where
  "is_ws c = (c \<in> set whitespace)"

definition strip :: "string \<Rightarrow> string" where
  "strip s = rev (dropWhile is_ws (rev (dropWhile is_ws s)))"

text \<open>
  Splitting as the specification words it: cut at every occurrence of a delimiter
  character, keeping empty tokens.
\<close>

fun split_ref :: "string \<Rightarrow> string \<Rightarrow> string list" where
  "split_ref ds [] = [[]]"
| "split_ref ds (c # cs) =
     (if c \<in> set ds then [] # split_ref ds cs
      else (case split_ref ds cs of t # ts \<Rightarrow> (c # t) # ts | [] \<Rightarrow> [[c]]))"

text \<open>
  \<open>rejoin seps toks\<close> writes the tokens one after the other with the next separator
  of \<open>seps\<close> between two neighbours.
\<close>

fun rejoin :: "string \<Rightarrow> string list \<Rightarrow> string" where
  "rejoin seps [] = []"
| "rejoin seps [t] = t"
| "rejoin [] (t # t' # ts) = t @ rejoin [] (t' # ts)"
| "rejoin (d # seps) (t # t' # ts) = t @ d # rejoin seps (t' # ts)"

subsection \<open>Names for the stages of a run of the builder\<close>

text \<open>
  The size the builder asks \<^verbatim>\<open>realloc\<close> for when the probe pass reported the
  length \<open>L\<close>: \<^verbatim>\<open>length = nchars + 1\<close> in \<^verbatim>\<open>int\<close>, converted to
  \<^verbatim>\<open>size_t\<close>.
\<close>

definition retry_size :: "nat \<Rightarrow> nat" where
  "retry_size L = to_size_t (int_wrap (int L + 1))"

text \<open>
  The probe buffer after the probe pass rendered \<open>s\<close> into it: the first 511
  characters of \<open>s\<close>, the terminator, and the bytes never written.
\<close>

definition probe_block :: "string \<Rightarrow> block" where
  "probe_block s = map Some (take 511 s) @ Some NUL # replicate (511 - length s) None"

text \<open>The world after the probe pass rendered \<open>s\<close>.\<close>

definition probe_world :: "world \<Rightarrow> string \<Rightarrow> world" where
  "probe_world w s =
     w\<lparr>heap := (fresh (heap w), probe_block s) # heap w,
       trace := trace w @ [Raise_SIGINT, Malloc 512 (Some (fresh (heap w))),
                  Vsnprintf AP_COPY 512 (int (length s))]\<rparr>"

text \<open>
  The statements of \<open>portable_vasprintf\<close> after the fit test (from
  \<^verbatim>\<open>length = nchars + 1\<close> on), as a function of the state the probe pass left.
\<close>

definition retry_pass ::
  "'a env \<Rightarrow> addr option \<Rightarrow> string \<Rightarrow> 'a va_list \<Rightarrow> 'a va_list \<Rightarrow> addr \<Rightarrow> int \<Rightarrow> world
     \<Rightarrow> world \<times> (abort + int \<times> addr option \<times> 'a va_list)" where
  "retry_pass env strp fmt ap ap_copy' buffer nchars w2 =
     (let length1 = int_wrap (nchars + 1)
      in case realloc env buffer (to_size_t length1) w2 of
           (w3, Inl x) \<Rightarrow> (w3, Inl x)
         | (w3, Inr None) \<Rightarrow>
             (case free (Some buffer) w3 of
                (w4, Inl x) \<Rightarrow> (w4, Inl x)
              | (w4, Inr u) \<Rightarrow> va_end_return ap_copy' w4 (- 1, strp, ap))
         | (w3, Inr (Some new_buffer)) \<Rightarrow>
             (case vsnprintf env 1 AP new_buffer (to_size_t length1) fmt ap w3 of
                (w4, Inl x) \<Rightarrow> (w4, Inl x)
              | (w4, Inr (nchars', ap')) \<Rightarrow>
                  if nchars' < 0 then
                    (case free (Some new_buffer) w4 of
                       (w5, Inl x) \<Rightarrow> (w5, Inl x)
                     | (w5, Inr u) \<Rightarrow> va_end_return ap_copy' w5 (nchars', strp, ap'))
                  else va_end_return ap_copy' w4 (nchars', Some new_buffer, ap')))"

text \<open>
  The address of the second buffer: the old address when \<^verbatim>\<open>realloc\<close> resizes in
  place, a fresh one when it moves the block.
\<close>

definition retry_addr :: "'a env \<Rightarrow> world \<Rightarrow> string \<Rightarrow> addr" where
  "retry_addr env w s =
     (if realloc_moves env then fresh (heap (probe_world w s)) else fresh (heap w))"

text \<open>The world after a successful \<^verbatim>\<open>realloc\<close> for a text \<open>s\<close> that did not fit.\<close>

definition retry_world :: "'a env \<Rightarrow> world \<Rightarrow> string \<Rightarrow> world" where
  "retry_world env w s =
     w\<lparr>heap := (retry_addr env w s,
            probe_block s @ replicate (retry_size (length s) - 512) None) # heap w,
       trace := trace w @ [Raise_SIGINT, Malloc 512 (Some (fresh (heap w))),
            Vsnprintf AP_COPY 512 (int (length s)),
            Realloc (fresh (heap w)) (retry_size (length s)) (Some (retry_addr env w s))]\<rparr>"

subsection \<open>Reading a trace\<close>

text \<open>The calls a run made: what it appended to the trace of the world it started in.\<close>

definition calls_made :: "world \<Rightarrow> world \<Rightarrow> event list" where
  "calls_made w w' = drop (length (trace w)) (trace w')"

fun is_allocation :: "event \<Rightarrow> bool" where
  "is_allocation (Malloc n r) = True"
| "is_allocation (Realloc a n r) = True"
| "is_allocation e = False"

fun is_realloc :: "event \<Rightarrow> bool" where
  "is_realloc (Realloc a n r) = True"
| "is_realloc e = False"

fun is_render :: "event \<Rightarrow> bool" where
  "is_render (Vsnprintf nm n r) = True"
| "is_render e = False"

text \<open>
  A failure event: an allocation request that returned the null pointer, or a call
  of the bounded-format primitive that returned a negative value.
\<close>

fun is_failure :: "event \<Rightarrow> bool" where
  "is_failure (Malloc n None) = True"
| "is_failure (Realloc a n None) = True"
| "is_failure (Vsnprintf nm n r) = (r < 0)"
| "is_failure e = False"

text \<open>The addresses the allocator handed out, and the addresses passed to \<^verbatim>\<open>free\<close>.\<close>

fun obtained :: "event list \<Rightarrow> addr list" where
  "obtained [] = []"
| "obtained (Malloc n (Some a) # es) = a # obtained es"
| "obtained (Realloc a n (Some a') # es) = a' # obtained es"
| "obtained (e # es) = obtained es"

fun freed :: "event list \<Rightarrow> addr list" where
  "freed [] = []"
| "freed (Free a # es) = a # freed es"
| "freed (e # es) = freed es"

subsection \<open>A concrete environment\<close>

text \<open>
  An environment in which nothing fails: the signal comes back, the allocator
  delivers (and \<^verbatim>\<open>realloc\<close> moves the block), and the formatter is the one of
  templates without conversion directives, whose rendered text is the template.
  \<open>retry_fails_with e\<close> is the same environment, but the retry pass of the primitive
  reports the error value \<open>-(e+1)\<close>.
\<close>

definition calm_env :: "unit env" where
  "calm_env =
     \<lparr>sigint_returns = True, malloc_fails = False, realloc_fails = False,
      realloc_moves = True, render = (\<lambda>fmt args. fmt),
      render_error = (\<lambda>k fmt args. None)\<rparr>"

definition retry_fails_with :: "nat \<Rightarrow> unit env" where
  "retry_fails_with e =
     calm_env\<lparr>render_error := (\<lambda>k fmt args. if k = 1 then Some e else None)\<rparr>"

definition empty_world :: world where
  "empty_world = \<lparr>heap = [], trace = []\<rparr>"

section \<open>Theorems\<close>

subsection \<open>trim\<close>

lemma takeWhile_rev_append_stop:
  "\<exists>x\<in>set d. \<not> P x \<Longrightarrow> takeWhile P (rev d @ ys) = takeWhile P (rev d)"
  by (metis set_rev takeWhile_append1)

lemma length_takeWhile_rev_dropWhile:
  assumes "\<exists>x\<in>set (dropWhile P s). \<not> P x"
  shows "length (takeWhile P (rev s)) = length (takeWhile P (rev (dropWhile P s)))"
proof -
  have "rev s = rev (dropWhile P s) @ rev (takeWhile P s)"
    by (metis rev_append takeWhile_dropWhile_id)
  then show ?thesis
    using takeWhile_rev_append_stop [OF assms] by metis
qed

lemma strip_strip: "strip (strip s) = strip s"
  unfolding strip_def
  by (metis (no_types, lifting) Nil_is_rev_conv dropWhile_eq_Nil_conv
      dropWhile_eq_self_iff dropWhile_last hd_dropWhile last_rev rev_swap)

lemma length_strip: "length (strip s) \<le> length s"
  unfolding strip_def
  by (metis length_dropWhile_le length_rev order_trans)

lemma strip_all_ws:
  assumes "\<forall>c\<in>set s. is_ws c"
  shows "strip s = []"
proof -
  have "dropWhile is_ws s = []"
    using assms by (simp only: dropWhile_eq_Nil_conv)
  then show ?thesis
    by (simp only: strip_def rev.simps dropWhile.simps)
qed

lemma size_sub_small:
  assumes "b \<le> a" "a < size_mod"
  shows "size_sub a b = a - b"
proof -
  have 1: "b mod size_mod = b" using assms by simp
  have 2: "a + size_mod - b = (a - b) + size_mod" using assms by simp
  have "size_sub a b = ((a - b) + size_mod) mod size_mod"
    by (simp only: size_sub_def 1 2)
  also have "\<dots> = (a - b) mod size_mod" by simp
  also have "\<dots> = a - b" using assms by simp
  finally show ?thesis .
qed

text \<open>On a string of a representable length, \<open>trim\<close> computes \<open>strip\<close> and never throws.\<close>

lemma trim_strip:
  assumes len: "length s < npos"
  shows "trim s = Inr (strip s)"
proof (cases "s = []")
  case True
  then show ?thesis by (simp add: trim_def strip_def)
next
  case ne: False
  define n where "n = length (takeWhile is_ws s)"
  define d where "d = dropWhile is_ws s"
  have ws: "(\<lambda>c. c \<in> set whitespace) = is_ws"
    by (simp add: is_ws_def fun_eq_iff)
  have d_drop: "d = drop n s"
    unfolding d_def n_def by (simp add: dropWhile_eq_drop)
  have n_le: "n \<le> length s"
    unfolding n_def by (simp add: length_takeWhile_le)
  show ?thesis
  proof (cases "n = length s")
    case True
    then have "d = []" by (simp add: d_drop)
    then have "dropWhile is_ws s = []" by (simp only: d_def)
    then have "strip s = []" by (simp only: strip_def rev.simps dropWhile.simps)
    moreover have "find_first_not_of s whitespace = npos"
      using True by (simp add: find_first_not_of_def ws n_def)
    ultimately show ?thesis using ne by (simp add: trim_def)
  next
    case False
    with n_le have n_lt: "n < length s" by simp
    then have b: "find_first_not_of s whitespace = n"
      using len by (simp add: find_first_not_of_def ws n_def)
    have "d \<noteq> []" using n_lt by (simp add: d_drop)
    then have "\<not> is_ws (hd d)" unfolding d_def by (metis hd_dropWhile)
    with \<open>d \<noteq> []\<close> have ex: "\<exists>x\<in>set d. \<not> is_ws x" by (metis hd_in_set)
    define m where "m = length (takeWhile is_ws (rev s))"
    have m_d: "m = length (takeWhile is_ws (rev d))"
      unfolding m_def d_def
      using ex length_takeWhile_rev_dropWhile [of is_ws s] by (simp add: d_def)
    have "takeWhile is_ws (rev d) \<noteq> rev d"
      using ex by (metis set_rev takeWhile_eq_all_conv)
    then have "m < length d"
      unfolding m_d
      by (metis length_rev length_takeWhile_le nat_less_le takeWhile_eq_all_conv
          takeWhile_eq_take take_all_iff le_neq_implies_less)
    then have mn: "m + n < length s" by (simp add: d_drop)
    then have e: "find_last_not_of s whitespace = length s - Suc m"
      using len by (simp add: find_last_not_of_def ws m_def Let_def)
    have cnt: "size_add (size_sub (length s - Suc m) n) 1 = length d - m"
    proof -
      have "size_sub (length s - Suc m) n = length s - Suc m - n"
        using mn len by (intro size_sub_small) (auto simp: npos_def)
      moreover have "length s - Suc m - n < npos" using len by simp
      ultimately show ?thesis using mn by (simp add: size_add_small d_drop)
    qed
    have "strip s = rev (dropWhile is_ws (rev d))"
      by (simp only: strip_def d_def)
    also have "\<dots> = rev (drop m (rev d))"
      by (simp only: m_d dropWhile_eq_drop)
    also have "\<dots> = take (length d - m) d"
      by (simp add: rev_drop)
    finally have st: "strip s = take (length d - m) (drop n s)"
      by (simp add: d_drop)
    have "n \<noteq> npos" using n_lt len by simp
    then show ?thesis
      using ne n_le b e cnt st by (simp add: trim_def substr_def)
  qed
qed

text \<open>
  Claim C9. \<open>trim\<close> is idempotent: on every string \<open>s\<close> (of a length a
  \<^verbatim>\<open>std::string\<close> can have) \<open>trim s\<close> returns a string \<open>t\<close>, and \<open>trim t\<close>
  returns \<open>t\<close> again. An input that consists only of spaces, tabs and newlines trims
  to the empty string, and the empty input is returned unchanged.
\<close>

theorem trim_idempotent:
  assumes "length s < npos"
  shows "(\<exists>t. trim s = Inr t \<and> trim t = Inr t)
       \<and> ((\<forall>c\<in>set s. c = SPC \<or> c = TAB \<or> c = NL) \<longrightarrow> trim s = Inr '''')
       \<and> trim '''' = Inr ''''"
proof -
  have 1: "trim s = Inr (strip s)"
    using assms by (rule trim_strip)
  have "length (strip s) < npos"
    using assms length_strip [of s] by simp
  then have "trim (strip s) = Inr (strip (strip s))"
    by (rule trim_strip)
  then have 2: "trim (strip s) = Inr (strip s)"
    by (simp only: strip_strip)
  have 3: "strip s = []" if "\<forall>c\<in>set s. c = SPC \<or> c = TAB \<or> c = NL"
    using that by (intro strip_all_ws) (auto simp: is_ws_def whitespace_def)
  have 4: "trim '''' = Inr ''''"
    by (simp add: trim_def)
  from 1 2 3 4 show ?thesis by auto
qed

theorem trim_idempotent_witness:
  "length [SPC, SPC, TAB, SPC, CHR ''h'', CHR ''i'', SPC, NL] < npos
   \<and> (\<exists>t. trim [SPC, SPC, TAB, SPC, CHR ''h'', CHR ''i'', SPC, NL] = Inr t \<and> trim t = Inr t)
   \<and> length [SPC, TAB, NL, SPC] < npos
   \<and> set [SPC, TAB, NL, SPC] \<subseteq> {SPC, TAB, NL}
   \<and> trim [SPC, TAB, NL, SPC] = Inr ''''"
  using trim_idempotent [of "[SPC, SPC, TAB, SPC, CHR ''h'', CHR ''i'', SPC, NL]"]
    trim_idempotent [of "[SPC, TAB, NL, SPC]"]
  by (simp add: npos_def size_mod_def)

subsection \<open>strSplit\<close>

lemma split_ref_nonempty: "split_ref ds s \<noteq> []"
  by (induction s) (auto split: list.splits)

lemma split_ref_no_delim:
  "\<forall>c\<in>set s. c \<notin> set ds \<Longrightarrow> split_ref ds s = [s]"
  by (induction s) auto

lemma split_ref_at_delim:
  "\<forall>c\<in>set u. c \<notin> set ds \<Longrightarrow> d \<in> set ds \<Longrightarrow> split_ref ds (u @ d # v) = u # split_ref ds v"
  by (induction u) auto

lemma split_ref_append_delim:
  "d \<in> set ds \<Longrightarrow> split_ref ds (u @ d # v) = split_ref ds u @ split_ref ds v"
  by (induction u) (auto split: list.splits simp: split_ref_nonempty)

lemma length_split_ref:
  "length (split_ref ds s) = Suc (length (filter (\<lambda>c. c \<in> set ds) s))"
  by (induction s) (auto split: list.splits simp: split_ref_nonempty)

lemma split_ref_tokens_clean:
  "\<forall>t\<in>set (split_ref ds s). \<forall>c\<in>set t. c \<notin> set ds"
  by (induction s) (fastforce split: list.splits if_splits)+

lemma strSplit_loop_ref:
  assumes "length str < npos" "lastPos \<le> length str"
  shows "strSplit_loop str ds tokens lastPos = Inr (tokens @ split_ref ds (drop lastPos str))"
  using assms
proof (induction "length str - lastPos" arbitrary: tokens lastPos rule: less_induct)
  case less
  define P where "P = (\<lambda>c. c \<notin> set ds)"
  define r where "r = drop lastPos str"
  define n where "n = length (takeWhile P r)"
  have lr: "length r = length str - lastPos" by (simp add: r_def)
  have n_le: "n \<le> length r" unfolding n_def by (rule length_takeWhile_le)
  have npos_lt: "npos < size_mod" by (simp add: npos_def size_mod_def)
  have sub_ok: "substr str lastPos k = Inr (take k r)" for k
    using less.prems by (simp add: substr_def r_def)
  show ?case
  proof (cases "n < length r")
    case True
    have lt: "lastPos + n < length str" using True lr less.prems by linarith
    then have pos: "find_first_of str ds lastPos = lastPos + n"
      using less.prems
      by (simp add: find_first_of_def Let_def r_def[symmetric] P_def[symmetric] n_def[symmetric])
    have posn: "lastPos + n < npos" using lt less.prems by simp
    have sub: "size_sub (lastPos + n) lastPos = n"
      using posn npos_lt by (simp add: size_sub_small)
    have add: "size_add (lastPos + n) (Suc 0) = Suc (lastPos + n)"
      using posn by (rule size_add_small)
    have tok: "take n r = takeWhile P r"
      unfolding n_def by (simp add: takeWhile_eq_take[symmetric])
    have "\<not> P (r ! n)"
      unfolding n_def using True n_def nth_length_takeWhile by blast
    then have delim: "r ! n \<in> set ds" by (simp add: P_def)
    have "r = takeWhile P r @ drop n r"
      by (metis append_take_drop_id tok)
    then have r_split: "r = takeWhile P r @ (r ! n) # drop (Suc n) r"
      using True by (simp add: Cons_nth_drop_Suc)
    have clean: "\<forall>c\<in>set (takeWhile P r). c \<notin> set ds"
      using set_takeWhileD[of _ P r] by (auto simp: P_def)
    have ref: "split_ref ds r = takeWhile P r # split_ref ds (drop (Suc n) r)"
      using split_ref_at_delim[OF clean delim, of "drop (Suc n) r"] r_split by simp
    have dr: "drop (Suc n) r = drop (Suc (lastPos + n)) str"
      by (simp add: r_def add.commute)
    have IH: "strSplit_loop str ds (tokens @ [takeWhile P r]) (Suc (lastPos + n))
        = Inr ((tokens @ [takeWhile P r]) @ split_ref ds (drop (Suc (lastPos + n)) str))"
      using lt less.prems by (intro less.hyps) auto
    have ne: "npos \<noteq> lastPos + n" using posn by simp
    show ?thesis
      by (subst strSplit_loop.simps)
        (simp add: pos sub add sub_ok tok ne IH Let_def r_def[symmetric] ref dr)
  next
    case False
    with n_le have n_eq: "n = length r" by simp
    then have all: "takeWhile P r = r" unfolding n_def
      by (metis takeWhile_eq_take take_all order_refl)
    then have clean: "\<forall>c\<in>set r. c \<notin> set ds"
      by (metis P_def takeWhile_eq_all_conv)
    have "\<not> lastPos + n < length str" using n_eq lr less.prems by simp
    then have pos: "find_first_of str ds lastPos = npos"
      by (simp add: find_first_of_def Let_def r_def[symmetric] P_def[symmetric] n_def[symmetric])
    have sub: "size_sub npos lastPos = npos - lastPos"
      using less.prems npos_lt by (simp add: size_sub_small)
    have "length r \<le> npos - lastPos" using lr less.prems by simp
    then have tok: "take (npos - lastPos) r = r" by simp
    show ?thesis
      by (subst strSplit_loop.simps)
        (simp add: pos sub sub_ok tok Let_def r_def[symmetric] split_ref_no_delim[OF clean])
  qed
qed

lemma strSplit_ref: "length str < npos \<Longrightarrow> strSplit str ds = Inr (split_ref ds str)"
  using strSplit_loop_ref[of str 0 ds "[]"] by (simp add: strSplit_def)

lemma rejoin_split_ref: "rejoin (filter (\<lambda>c. c \<in> set ds) s) (split_ref ds s) = s"
proof (induction s)
  case Nil
  show ?case by simp
next
  case (Cons c cs)
  obtain t ts where ts: "split_ref ds cs = t # ts"
    using split_ref_nonempty [of ds cs] by (cases "split_ref ds cs") auto
  show ?case
  proof (cases "c \<in> set ds")
    case True
    with Cons ts show ?thesis by simp
  next
    case False
    with Cons ts show ?thesis
      by (cases ts; cases "filter (\<lambda>c. c \<in> set ds) cs") auto
  qed
qed

text \<open>
  Claim C8. For every input string (of a length a \<^verbatim>\<open>std::string\<close> can have) and
  every delimiter set, \<open>strSplit\<close> returns the tokens cut at every occurrence of a
  delimiter character, with no collapsing: there is one token more than there are
  delimiter occurrences, no token holds a delimiter, and the tokens rejoined with
  the delimiters of the input give the input back. Two delimiters in a row give an
  empty token between them, a trailing delimiter gives a trailing empty token, an
  input with no delimiter gives the input as the single token, and the empty input a
  single empty token. \<open>strSplit "a,,b," ","\<close> is \<open>["a", "", "b", ""]\<close>.
\<close>

theorem strSplit_no_collapsing:
  assumes "length str < npos"
  shows "(\<exists>toks. strSplit str ds = Inr toks
           \<and> toks = split_ref ds str
           \<and> length toks = Suc (length (filter (\<lambda>c. c \<in> set ds) str))
           \<and> (\<forall>t\<in>set toks. \<forall>c\<in>set t. c \<notin> set ds)
           \<and> rejoin (filter (\<lambda>c. c \<in> set ds) str) toks = str
           \<and> (\<forall>u d d' v. str = u @ d # d' # v \<and> d \<in> set ds \<and> d' \<in> set ds
                 \<longrightarrow> toks ! Suc (length (filter (\<lambda>c. c \<in> set ds) u)) = [])
           \<and> (\<forall>u d. str = u @ [d] \<and> d \<in> set ds \<longrightarrow> last toks = [])
           \<and> ((\<forall>c\<in>set str. c \<notin> set ds) \<longrightarrow> toks = [str])
           \<and> (str = [] \<longrightarrow> toks = [[]]))
       \<and> strSplit ''a,,b,'' '','' = Inr [''a'', '''', ''b'', '''']"
proof -
  have 1: "strSplit str ds = Inr (split_ref ds str)"
    using assms by (rule strSplit_ref)
  have 2: "split_ref ds str ! Suc (length (filter (\<lambda>c. c \<in> set ds) u)) = []"
    if "str = u @ d # d' # v" "d \<in> set ds" "d' \<in> set ds" for u d d' v
  proof -
    have "split_ref ds str = split_ref ds u @ [] # split_ref ds v"
      using that by (simp add: split_ref_append_delim)
    then show ?thesis
      by (simp add: nth_append length_split_ref)
  qed
  have 3: "last (split_ref ds str) = []" if "str = u @ [d]" "d \<in> set ds" for u d
    using that by (simp add: split_ref_append_delim)
  have 4: "length ''a,,b,'' < npos"
    by (simp add: npos_def size_mod_def)
  have 5: "strSplit ''a,,b,'' '','' = Inr [''a'', '''', ''b'', '''']"
    by (simp add: strSplit_ref [OF 4])
  show ?thesis
    using 1 2 3 5 length_split_ref [of ds str] split_ref_tokens_clean [of ds str]
      rejoin_split_ref [of ds str] split_ref_no_delim [of str ds]
    by auto
qed

theorem strSplit_no_collapsing_witness:
  "length ''a,,b,'' < npos
   \<and> ''a,,b,'' = ''a'' @ CHR '','' # CHR '','' # ''b,''
   \<and> ''a,,b,'' = ''a,,b'' @ [CHR '','']
   \<and> CHR '','' \<in> set '',''
   \<and> strSplit ''a,,b,'' '','' = Inr [''a'', '''', ''b'', '''']
   \<and> [''a'', '''', ''b'', ''''] ! Suc (length (filter (\<lambda>c. c \<in> set '','') ''a'')) = []
   \<and> last [''a'', '''', ''b'', ''''] = []
   \<and> length ''ab'' < npos
   \<and> set ''ab'' \<inter> set '','' = {}
   \<and> strSplit ''ab'' '','' = Inr [''ab'']
   \<and> strSplit '''' '','' = Inr ['''']"
  using strSplit_no_collapsing [of "''a,,b,''" "'',''"]
    strSplit_no_collapsing [of "''ab''" "'',''"]
    strSplit_no_collapsing [of "''''" "'',''"]
  by (simp add: npos_def size_mod_def)

subsection \<open>readLine\<close>

lemma fskip_loop_stop: "c = NL \<or> \<not> stream_good st \<Longrightarrow> fskip_loop c st = st"
  by (subst fskip_loop.simps) auto

lemma fskip_loop_skip:
  assumes "stream_good st" "c \<noteq> NL"
  shows "fskip_loop c st =
    (case dropWhile (\<lambda>x. x \<noteq> NL) (unread st) of
       [] \<Rightarrow> st\<lparr>unread := [], eofbit := True, failbit := True\<rparr>
     | x # rest \<Rightarrow> st\<lparr>unread := rest\<rparr>)"
  using assms
proof (induction "unread st" arbitrary: st c)
  case Nil
  then have "stream_get_char st c = (st\<lparr>eofbit := True, failbit := True\<rparr>, c)"
    by (simp add: stream_get_char_def)
  moreover have "\<not> stream_good (st\<lparr>eofbit := True, failbit := True\<rparr>)"
    by (simp add: stream_good_def)
  ultimately show ?case
    using Nil by (subst fskip_loop.simps) (simp add: fskip_loop_stop stream_good_def)
next
  case (Cons x xs)
  have u: "unread st = x # xs" using Cons.hyps(2) by simp
  have g: "stream_get_char st c = (st\<lparr>unread := xs\<rparr>, x)"
    using u Cons.prems by (simp add: stream_get_char_def)
  have good': "stream_good (st\<lparr>unread := xs\<rparr>)"
    using Cons.prems by (simp add: stream_good_def)
  have step: "fskip_loop c st = fskip_loop x (st\<lparr>unread := xs\<rparr>)"
    using Cons.prems g by (subst fskip_loop.simps) (simp add: stream_good_def)
  show ?case
  proof (cases "x = NL")
    case True
    then show ?thesis
      using step u by (simp add: fskip_loop_stop)
  next
    case False
    have "xs = unread (st\<lparr>unread := xs\<rparr>)" by simp
    have IH: "fskip_loop x (st\<lparr>unread := xs\<rparr>) =
      (case dropWhile (\<lambda>x. x \<noteq> NL) xs of
         [] \<Rightarrow> st\<lparr>unread := [], eofbit := True, failbit := True\<rparr>
       | y # rest \<Rightarrow> st\<lparr>unread := rest\<rparr>)"
      using Cons.hyps(1) [OF \<open>xs = unread (st\<lparr>unread := xs\<rparr>)\<close> good' False]
      by (simp cong: list.case_cong)
    show ?thesis
      by (simp only: step IH u dropWhile.simps False not_False_eq_True if_True)
  qed
qed

lemma readLine_eof: "eofbit st \<Longrightarrow> readLine st cl = (st, cl, - 1)"
  by (simp add: readLine_def)

lemma readLine_unfold:
  assumes "\<not> eofbit st" "stream_get_line st = (st1, got)"
  shows "readLine st cl =
    (G2O_FSKIP_LINE (if stream_fail st1 then stream_clear st1 else st1), got,
     int_wrap (int (length got)))"
  using assms by (simp add: readLine_def Let_def)

lemma readLine_good:
  assumes good: "stream_good st"
  shows "\<exists>st'. readLine st cl =
        (st', takeWhile (\<lambda>c. c \<noteq> NL) (unread st),
         int_wrap (int (length (takeWhile (\<lambda>c. c \<noteq> NL) (unread st)))))
     \<and> unread st' = drop (Suc (length (takeWhile (\<lambda>c. c \<noteq> NL) (unread st)))) (unread st)
     \<and> eofbit st' = (NL \<notin> set (unread st))
     \<and> \<not> badbit st'"
proof -
  define got where "got = takeWhile (\<lambda>c. c \<noteq> NL) (unread st)"
  define rest where "rest = dropWhile (\<lambda>c. c \<noteq> NL) (unread st)"
  define st1 where "st1 = st\<lparr>unread := rest, eofbit := (rest = []), failbit := (got = [])\<rparr>"
  define st2 where "st2 = (if stream_fail st1 then stream_clear st1 else st1)"
  have dr: "drop (Suc (length got)) (unread st) = tl rest"
    unfolding got_def rest_def by (simp add: dropWhile_eq_drop drop_Suc tl_drop)
  have flags: "\<not> eofbit st" "\<not> failbit st" "\<not> badbit st"
    using good by (auto simp: stream_good_def)
  have nl: "(NL \<notin> set (unread st)) = (rest = [])"
    unfolding rest_def by (auto simp: dropWhile_eq_Nil_conv)
  have gl: "stream_get_line st = (st1, got)"
    using good by (simp add: stream_get_line_def Let_def got_def rest_def st1_def)
  have rl: "readLine st cl = (G2O_FSKIP_LINE st2, got, int_wrap (int (length got)))"
    unfolding st2_def by (rule readLine_unfold [OF flags(1) gl])
  have fin: "unread (G2O_FSKIP_LINE st2) = tl rest
      \<and> eofbit (G2O_FSKIP_LINE st2) = (rest = []) \<and> \<not> badbit (G2O_FSKIP_LINE st2)"
  proof (cases rest)
    case Nil
    show ?thesis
    proof (cases "got = []")
      case True
      have "st2 = st\<lparr>unread := [], eofbit := False, failbit := False, badbit := False\<rparr>"
        using Nil True by (simp add: st2_def st1_def stream_fail_def stream_clear_def)
      then show ?thesis
        using Nil
        by (simp add: G2O_FSKIP_LINE_def fskip_loop_skip stream_good_def SPC_def NL_def)
    next
      case False
      have "st2 = st1"
        using False flags by (simp add: st2_def st1_def stream_fail_def)
      moreover have "\<not> stream_good st1"
        using Nil by (simp add: st1_def stream_good_def)
      ultimately show ?thesis
        using Nil flags by (simp add: G2O_FSKIP_LINE_def fskip_loop_stop st1_def)
    qed
  next
    case (Cons x rest')
    have "x = NL"
      using Cons hd_dropWhile [of "\<lambda>c. c \<noteq> NL" "unread st"] by (simp add: rest_def)
    have "stream_good st2 \<and> unread st2 = NL # rest'"
      using Cons \<open>x = NL\<close> flags
      by (simp add: st2_def st1_def stream_fail_def stream_clear_def stream_good_def)
    then show ?thesis
      using Cons flags
      by (simp add: G2O_FSKIP_LINE_def fskip_loop_skip SPC_def NL_def stream_good_def)
  qed
  show ?thesis
    using rl fin dr nl by (simp add: got_def)
qed

lemma SPC_not_NL: "SPC \<noteq> NL"
  by (simp add: SPC_def NL_def)

lemma readLine_failed:
  assumes "\<not> eofbit st" "\<not> stream_good st"
  shows "\<exists>st'. readLine st cl = (st', [], 0)
     \<and> unread st' = tl (dropWhile (\<lambda>c. c \<noteq> NL) (unread st))"
proof -
  define st2 where "st2 = stream_clear (st\<lparr>failbit := True\<rparr>)"
  have gl: "stream_get_line st = (st\<lparr>failbit := True\<rparr>, [])"
    using assms by (simp add: stream_get_line_def)
  have "stream_fail (st\<lparr>failbit := True\<rparr>)" by (simp add: stream_fail_def)
  then have rl: "readLine st cl = (G2O_FSKIP_LINE st2, [], 0)"
    using readLine_unfold [OF assms(1) gl, of cl] by (simp add: int_wrap_def st2_def)
  have g2: "stream_good st2" and u2: "unread st2 = unread st"
    by (simp_all add: st2_def stream_clear_def stream_good_def)
  have "unread (G2O_FSKIP_LINE st2) = tl (dropWhile (\<lambda>c. c \<noteq> NL) (unread st))"
    unfolding G2O_FSKIP_LINE_def fskip_loop_skip [OF g2 SPC_not_NL] u2
    by (cases "dropWhile (\<lambda>c. c \<noteq> NL) (unread st)")
      (simp_all del: dropWhile_eq_Nil_conv)
  with rl show ?thesis by simp
qed

lemma int_wrap_small: "0 \<le> x \<Longrightarrow> x < 2147483648 \<Longrightarrow> int_wrap x = x"
  by (simp add: int_wrap_def)

text \<open>
  Claim C7, as the code has it. \<open>readLine\<close> returns the sentinel \<open>-1\<close>, and leaves
  the stream and the line buffer as they are, when the end-of-file flag of the
  stream is set at the call. On a good stream it extracts the characters up to, not
  including, the next newline, discards that newline, and returns the number of
  characters extracted (converted to \<^verbatim>\<open>int\<close>: the number itself below \<open>2^31\<close>);
  the end-of-file flag is set by the call exactly when the unread input held no
  newline. On a stream that failed without the end-of-file flag it extracts nothing,
  clears the error, skips the rest of the line and returns 0. Over \<open>"a\nb\n"\<close>
  four calls yield \<open>"a"\<close>, \<open>"b"\<close>, an empty line with result 0, and only then the
  sentinel.
\<close>

theorem readLine_sentinel_when_eof_flag_set:
  "(eofbit st \<longrightarrow> readLine st cl = (st, cl, - 1))
   \<and> (stream_good st \<longrightarrow>
        (\<exists>st'. readLine st cl =
            (st', takeWhile (\<lambda>c. c \<noteq> NL) (unread st),
             int_wrap (int (length (takeWhile (\<lambda>c. c \<noteq> NL) (unread st)))))
          \<and> unread st' = drop (Suc (length (takeWhile (\<lambda>c. c \<noteq> NL) (unread st)))) (unread st)
          \<and> eofbit st' = (NL \<notin> set (unread st))))
   \<and> (stream_good st \<and> length (takeWhile (\<lambda>c. c \<noteq> NL) (unread st)) < 2147483648 \<longrightarrow>
        snd (snd (readLine st cl)) = int (length (takeWhile (\<lambda>c. c \<noteq> NL) (unread st))))
   \<and> (\<not> eofbit st \<and> \<not> stream_good st \<longrightarrow>
        (\<exists>st'. readLine st cl = (st', [], 0)
          \<and> unread st' = tl (dropWhile (\<lambda>c. c \<noteq> NL) (unread st))))
   \<and> readLine_repeat 4 (open_stream [CHR ''a'', NL, CHR ''b'', NL]) cl
        = [(''a'', 1), (''b'', 1), ('''', 0), ('''', - 1)]"
proof -
  have 1: "readLine st cl = (st, cl, - 1)" if "eofbit st"
    using that by (rule readLine_eof)
  have 2: "\<exists>st'. readLine st cl =
            (st', takeWhile (\<lambda>c. c \<noteq> NL) (unread st),
             int_wrap (int (length (takeWhile (\<lambda>c. c \<noteq> NL) (unread st)))))
          \<and> unread st' = drop (Suc (length (takeWhile (\<lambda>c. c \<noteq> NL) (unread st)))) (unread st)
          \<and> eofbit st' = (NL \<notin> set (unread st))" if "stream_good st"
    using readLine_good [OF that, of cl] by blast
  have 3: "snd (snd (readLine st cl)) = int (length (takeWhile (\<lambda>c. c \<noteq> NL) (unread st)))"
    if "stream_good st" "length (takeWhile (\<lambda>c. c \<noteq> NL) (unread st)) < 2147483648"
    using readLine_good [OF that(1), of cl] that(2) by (auto simp: int_wrap_small)
  have 4: "\<exists>st'. readLine st cl = (st', [], 0)
          \<and> unread st' = tl (dropWhile (\<lambda>c. c \<noteq> NL) (unread st))"
    if "\<not> eofbit st" "\<not> stream_good st"
    using that by (rule readLine_failed)
  have 5: "readLine_repeat 4 (open_stream [CHR ''a'', NL, CHR ''b'', NL]) cl
        = [(''a'', 1), (''b'', 1), ('''', 0), ('''', - 1)]"
    by code_simp
  from 1 2 3 4 5 show ?thesis by blast
qed

theorem readLine_sentinel_when_eof_flag_set_witness:
  "eofbit \<lparr>unread = [], eofbit = True, failbit = False, badbit = False\<rparr>
   \<and> readLine \<lparr>unread = [], eofbit = True, failbit = False, badbit = False\<rparr> ''b''
       = (\<lparr>unread = [], eofbit = True, failbit = False, badbit = False\<rparr>, ''b'', - 1)
   \<and> stream_good (open_stream [CHR ''a'', NL, CHR ''b'', NL])
   \<and> length (takeWhile (\<lambda>c. c \<noteq> NL) (unread (open_stream [CHR ''a'', NL, CHR ''b'', NL])))
       < 2147483648
   \<and> snd (snd (readLine (open_stream [CHR ''a'', NL, CHR ''b'', NL]) '''')) = 1
   \<and> fst (snd (readLine (open_stream [CHR ''a'', NL, CHR ''b'', NL]) '''')) = ''a''
   \<and> unread (fst (readLine (open_stream [CHR ''a'', NL, CHR ''b'', NL]) '''')) = [CHR ''b'', NL]
   \<and> \<not> eofbit \<lparr>unread = [CHR ''x'', NL, CHR ''y''], eofbit = False, failbit = True, badbit = False\<rparr>
   \<and> \<not> stream_good \<lparr>unread = [CHR ''x'', NL, CHR ''y''], eofbit = False, failbit = True, badbit = False\<rparr>
   \<and> snd (readLine \<lparr>unread = [CHR ''x'', NL, CHR ''y''], eofbit = False, failbit = True, badbit = False\<rparr> ''b'')
       = ('''', 0)
   \<and> unread (fst (readLine \<lparr>unread = [CHR ''x'', NL, CHR ''y''], eofbit = False, failbit = True, badbit = False\<rparr> ''b''))
       = ''y''"
  using
    readLine_sentinel_when_eof_flag_set
      [of "\<lparr>unread = [], eofbit = True, failbit = False, badbit = False\<rparr>" "''b''"]
    readLine_sentinel_when_eof_flag_set [of "open_stream [CHR ''a'', NL, CHR ''b'', NL]" "''''"]
    readLine_sentinel_when_eof_flag_set
      [of "\<lparr>unread = [CHR ''x'', NL, CHR ''y''], eofbit = False, failbit = True, badbit = False\<rparr>" "''b''"]
  by (auto simp: stream_good_def open_stream_def NL_def)

text \<open>
  Claim C7 as stated fails: over \<open>"a\nb\n"\<close> the third call does not return the
  sentinel. The second call stops after the newline and no read has met the end of
  the input yet, so the third call finds the end-of-file flag clear, extracts an
  empty line and returns 0.
\<close>

theorem readLine_third_call_counterexample:
  "readLine_repeat 3 (open_stream [CHR ''a'', NL, CHR ''b'', NL]) ''''
     = [(''a'', 1), (''b'', 1), ('''', 0)]
   \<and> snd (readLine_repeat 3 (open_stream [CHR ''a'', NL, CHR ''b'', NL]) '''' ! 2) \<noteq> - 1"
  by code_simp

subsection \<open>The runs of portable\_vasprintf\<close>

lemma le_fold_max: "(a::nat) \<le> fold max xs a"
  by (induction xs arbitrary: a) (auto intro: order_trans [OF max.cobounded2])

lemma mem_le_fold_max: "x \<in> set xs \<Longrightarrow> (x::nat) \<le> fold max xs a"
proof (induction xs arbitrary: a)
  case Nil
  then show ?case by simp
next
  case (Cons y ys)
  then show ?case
    using le_fold_max [of "max y a" ys] by auto
qed

lemma fresh_notin: "fresh h \<notin> fst ` set h"
proof
  assume "fresh h \<in> fst ` set h"
  then have "fresh h \<in> set (map fst h)" by simp
  then have "fresh h \<le> fold max (map fst h) 0" by (rule mem_le_fold_max)
  then show False by (simp add: fresh_def)
qed

lemma fresh_not_null: "fresh h \<noteq> 0"
  by (simp add: fresh_def)

lemma release_notin: "a \<notin> fst ` set h \<Longrightarrow> release a h = h"
  by (induction h) (auto simp: release_def)

lemma store_notin: "a \<notin> fst ` set h \<Longrightarrow> store a blk h = h"
  by (induction h) (auto simp: store_def)

lemma release_head: "a \<notin> fst ` set h \<Longrightarrow> release a ((a, b) # h) = h"
  using release_notin [of a h] by (simp add: release_def)

lemma store_head: "a \<notin> fst ` set h \<Longrightarrow> store a blk ((a, b) # h) = (a, blk) # h"
  using store_notin [of a h blk] by (simp add: store_def)

lemma run_killed:
  assumes "\<not> sigint_returns env"
  shows "portable_vasprintf env strp fmt ap w = (log Raise_SIGINT w, Inl Killed_by_SIGINT)"
  using assms by (simp add: portable_vasprintf_def raise_SIGINT_def)

lemma run_malloc_fails:
  assumes "sigint_returns env" "malloc_fails env"
  shows "portable_vasprintf env strp fmt ap w =
    (w\<lparr>trace := trace w @ [Raise_SIGINT, Malloc 512 None]\<rparr>, Inr (- 1, strp, ap))"
  using assms
  by (simp add: portable_vasprintf_def raise_SIGINT_def malloc_def log_def to_size_t_def)

lemma run_probe_error:
  assumes "sigint_returns env" "\<not> malloc_fails env"
    and "render_error env 0 fmt args = Some e"
  shows "portable_vasprintf env strp fmt (Va_active args) w =
    (w\<lparr>trace := trace w @ [Raise_SIGINT, Malloc 512 (Some (fresh (heap w))),
        Vsnprintf AP_COPY 512 (- int (Suc e)), Free (fresh (heap w))]\<rparr>,
     Inr (- 1, strp, Va_active args))"
  using assms fresh_notin [of "heap w"]
  by (simp add: portable_vasprintf_def raise_SIGINT_def malloc_def log_def to_size_t_def
      va_copy_def vsnprintf_def free_def va_end_return_def va_end_def Let_def release_head)

lemma run_probe_too_long:
  assumes "sigint_returns env" "\<not> malloc_fails env"
    and "render_error env 0 fmt args = None"
    and "INT_MAX < int (length (render env fmt args))"
  shows "portable_vasprintf env strp fmt (Va_active args) w =
    (w\<lparr>trace := trace w @ [Raise_SIGINT, Malloc 512 (Some (fresh (heap w))),
        Vsnprintf AP_COPY 512 (- 1), Free (fresh (heap w))]\<rparr>,
     Inr (- 1, strp, Va_active args))"
  using assms fresh_notin [of "heap w"]
  by (simp add: portable_vasprintf_def raise_SIGINT_def malloc_def log_def to_size_t_def
      va_copy_def vsnprintf_def free_def va_end_return_def va_end_def Let_def release_head)

lemma length_probe_block: "length (probe_block s) = 512"
  by (simp add: probe_block_def)

lemma probe_block_fits:
  "length s < 512 \<Longrightarrow>
     probe_block s = map Some s @ Some NUL # replicate (511 - length s) None"
  by (simp add: probe_block_def)

lemma probe_block_full:
  "512 \<le> length s \<Longrightarrow> probe_block s = map Some (take 511 s) @ [Some NUL]"
  by (simp add: probe_block_def)

text \<open>The calls up to the fit test, when the probe pass renders.\<close>

lemma probe_stage:
  assumes "sigint_returns env" "\<not> malloc_fails env"
    and "render_error env 0 fmt args = None"
    and "int (length (render env fmt args)) \<le> INT_MAX"
  shows "portable_vasprintf env strp fmt (Va_active args) w =
    (if length (render env fmt args) < 512
     then (probe_world w (render env fmt args),
           Inr (int (length (render env fmt args)), Some (fresh (heap w)), Va_active args))
     else retry_pass env strp fmt (Va_active args) Va_spent (fresh (heap w))
            (int (length (render env fmt args))) (probe_world w (render env fmt args)))"
proof -
  define s where "s = render env fmt args"
  define p where "p = fresh (heap w)"
  define w0 where "w0 = log Raise_SIGINT w"
  define w1 where "w1 = log (Malloc 512 (Some p)) (w0\<lparr>heap := (p, replicate 512 None) # heap w0\<rparr>)"
  have h0: "raise_SIGINT env w = (w0, Inr ())"
    using assms(1) by (simp add: raise_SIGINT_def w0_def)
  have h1: "malloc env (to_size_t 512) w0 = (w1, Some p)"
    using assms(2) by (simp add: malloc_def to_size_t_def w1_def w0_def p_def log_def Let_def)
  have h2: "va_copy (Va_active args) = Inr (Va_active args)"
    by (simp add: va_copy_def)
  have out: "map Some (take 511 s) @ Some NUL # drop (Suc (min (length s) 511)) (replicate 512 None)
      = probe_block s"
    by (simp add: probe_block_def min_def)
  have h3: "vsnprintf env 0 AP_COPY p (to_size_t 512) fmt (Va_active args) w1
      = (probe_world w s, Inr (int (length s), Va_spent))"
    using assms(3,4) fresh_notin [of "heap w"] out
    by (simp add: vsnprintf_def to_size_t_def s_def [symmetric] w1_def w0_def log_def
        p_def [symmetric] store_head probe_world_def Let_def)
  have h4: "va_end_return Va_spent ww r = (ww, Inr r)" for ww r
    by (simp add: va_end_return_def va_end_def)
  show ?thesis
    unfolding portable_vasprintf_def retry_pass_def s_def [symmetric] p_def [symmetric]
    by (simp add: h0 h1 h2 h3 h4 Let_def)
qed

lemma retry_size_exact: "int L < INT_MAX \<Longrightarrow> retry_size L = Suc L"
  by (simp add: retry_size_def to_size_t_def int_wrap_def INT_MAX_def)

lemma retry_size_ge: "int L \<le> INT_MAX \<Longrightarrow> Suc L \<le> retry_size L"
proof (cases "int L < INT_MAX")
  case True
  then show ?thesis by (simp add: retry_size_exact)
next
  case False
  assume "int L \<le> INT_MAX"
  with False have "L = 2147483647" by (simp add: INT_MAX_def)
  then show ?thesis
    by (simp add: retry_size_def to_size_t_def int_wrap_def)
qed

lemma retry_addr_notin: "retry_addr env w s \<notin> fst ` set (heap w)"
  using fresh_notin [of "heap w"] fresh_notin [of "heap (probe_world w s)"]
  by (simp add: retry_addr_def probe_world_def)

lemma run_fits:
  assumes "sigint_returns env" "\<not> malloc_fails env"
    and "render_error env 0 fmt args = None"
    and "length (render env fmt args) < 512"
  shows "portable_vasprintf env strp fmt (Va_active args) w =
    (probe_world w (render env fmt args),
     Inr (int (length (render env fmt args)), Some (fresh (heap w)), Va_active args))"
  using assms by (simp add: probe_stage INT_MAX_def)

lemma run_realloc_fails:
  assumes "sigint_returns env" "\<not> malloc_fails env"
    and "render_error env 0 fmt args = None"
    and "512 \<le> length (render env fmt args)"
    and "int (length (render env fmt args)) \<le> INT_MAX"
    and "realloc_fails env"
  shows "portable_vasprintf env strp fmt (Va_active args) w =
    (w\<lparr>trace := trace w @ [Raise_SIGINT, Malloc 512 (Some (fresh (heap w))),
          Vsnprintf AP_COPY 512 (int (length (render env fmt args))),
          Realloc (fresh (heap w)) (retry_size (length (render env fmt args))) None,
          Free (fresh (heap w))]\<rparr>,
     Inr (- 1, strp, Va_active args))"
proof -
  define s where "s = render env fmt args"
  define p where "p = fresh (heap w)"
  define w3 where "w3 = log (Realloc p (retry_size (length s)) None) (probe_world w s)"
  have h0: "realloc env p (to_size_t (int_wrap (int (length s) + 1))) (probe_world w s)
      = (w3, Inr None)"
    using assms(6)
    by (simp add: realloc_def probe_world_def p_def w3_def retry_size_def)
  have h1: "free (Some p) w3 = (log (Free p) (w3\<lparr>heap := heap w\<rparr>), Inr ())"
    using fresh_notin [of "heap w"]
    by (simp add: free_def w3_def log_def probe_world_def p_def release_head)
  have h2: "va_end_return Va_spent ww r = (ww, Inr r)" for ww r
    by (simp add: va_end_return_def va_end_def)
  have "portable_vasprintf env strp fmt (Va_active args) w =
      retry_pass env strp fmt (Va_active args) Va_spent p (int (length s)) (probe_world w s)"
    using assms by (simp add: probe_stage s_def p_def)
  also have "\<dots> = (log (Free p) (w3\<lparr>heap := heap w\<rparr>), Inr (- 1, strp, Va_active args))"
    unfolding retry_pass_def by (simp add: h0 h1 h2 Let_def)
  also have "log (Free p) (w3\<lparr>heap := heap w\<rparr>) =
      w\<lparr>trace := trace w @ [Raise_SIGINT, Malloc 512 (Some p),
          Vsnprintf AP_COPY 512 (int (length s)),
          Realloc p (retry_size (length s)) None, Free p]\<rparr>"
    by (simp add: w3_def log_def probe_world_def p_def)
  finally show ?thesis
    by (simp only: s_def p_def)
qed

text \<open>
  The world after a successful \<^verbatim>\<open>realloc\<close> for a text \<open>s\<close> that did not fit:
  the probe block has become the second buffer.
\<close>

lemma retry_realloc_ok:
  assumes "512 \<le> length s" "int (length s) \<le> INT_MAX" "\<not> realloc_fails env"
  shows "realloc env (fresh (heap w)) (to_size_t (int_wrap (int (length s) + 1))) (probe_world w s)
    = (w\<lparr>heap := (retry_addr env w s,
            probe_block s @ replicate (retry_size (length s) - 512) None) # heap w,
          trace := trace w @ [Raise_SIGINT, Malloc 512 (Some (fresh (heap w))),
            Vsnprintf AP_COPY 512 (int (length s)),
            Realloc (fresh (heap w)) (retry_size (length s)) (Some (retry_addr env w s))]\<rparr>,
       Inr (Some (retry_addr env w s)))"
proof -
  have "512 \<le> retry_size (length s)"
    using retry_size_ge [OF assms(2)] assms(1) by simp
  then show ?thesis
    using assms(3) fresh_notin [of "heap w"]
    by (simp add: realloc_def probe_world_def retry_size_def [symmetric] retry_addr_def
        log_def Let_def release_head length_probe_block)
qed

lemma run_retry_error:
  assumes "sigint_returns env" "\<not> malloc_fails env"
    and "render_error env 0 fmt args = None"
    and "512 \<le> length (render env fmt args)"
    and "int (length (render env fmt args)) \<le> INT_MAX"
    and "\<not> realloc_fails env"
    and "render_error env 1 fmt args = Some e"
  shows "portable_vasprintf env strp fmt (Va_active args) w =
    (w\<lparr>trace := trace w @ [Raise_SIGINT, Malloc 512 (Some (fresh (heap w))),
          Vsnprintf AP_COPY 512 (int (length (render env fmt args))),
          Realloc (fresh (heap w)) (retry_size (length (render env fmt args)))
            (Some (retry_addr env w (render env fmt args))),
          Vsnprintf AP (retry_size (length (render env fmt args))) (- int (Suc e)),
          Free (retry_addr env w (render env fmt args))]\<rparr>,
     Inr (- int (Suc e), strp, Va_spent))"
proof -
  define s where "s = render env fmt args"
  define p where "p = fresh (heap w)"
  define q where "q = retry_addr env w s"
  define n where "n = retry_size (length s)"
  define w3 where "w3 = retry_world env w s"
  define w4 where "w4 = log (Vsnprintf AP n (- int (Suc e))) w3"
  have h0: "realloc env p (to_size_t (int_wrap (int (length s) + 1))) (probe_world w s)
      = (w3, Inr (Some q))"
    using assms(4-6) unfolding p_def q_def w3_def retry_world_def s_def
    by (rule retry_realloc_ok)
  have h1: "vsnprintf env (Suc 0) AP q (to_size_t (int_wrap (int (length s) + 1))) fmt (Va_active args) w3
      = (w4, Inr (- int (Suc e), Va_spent))"
    using assms(7) by (simp add: vsnprintf_def w4_def n_def retry_size_def)
  have h2: "free (Some q) w4 = (log (Free q) (w4\<lparr>heap := heap w\<rparr>), Inr ())"
    using retry_addr_notin [of env w s]
    by (simp add: free_def w4_def w3_def retry_world_def log_def q_def release_head)
  have h3: "va_end_return Va_spent ww r = (ww, Inr r)" for ww r
    by (simp add: va_end_return_def va_end_def)
  have "portable_vasprintf env strp fmt (Va_active args) w =
      retry_pass env strp fmt (Va_active args) Va_spent p (int (length s)) (probe_world w s)"
    using assms by (simp add: probe_stage s_def p_def)
  also have "\<dots> = (log (Free q) (w4\<lparr>heap := heap w\<rparr>), Inr (- int (Suc e), strp, Va_spent))"
    unfolding retry_pass_def by (simp add: h0 h1 h2 h3 Let_def)
  also have "log (Free q) (w4\<lparr>heap := heap w\<rparr>) =
      w\<lparr>trace := trace w @ [Raise_SIGINT, Malloc 512 (Some p),
          Vsnprintf AP_COPY 512 (int (length s)),
          Realloc p n (Some q), Vsnprintf AP n (- int (Suc e)), Free q]\<rparr>"
    by (simp add: w4_def w3_def retry_world_def log_def p_def q_def n_def)
  finally show ?thesis
    by (simp only: s_def p_def q_def n_def)
qed

lemma run_retry_ok:
  assumes "sigint_returns env" "\<not> malloc_fails env"
    and "render_error env 0 fmt args = None"
    and "512 \<le> length (render env fmt args)"
    and "int (length (render env fmt args)) \<le> INT_MAX"
    and "\<not> realloc_fails env"
    and "render_error env 1 fmt args = None"
  shows "portable_vasprintf env strp fmt (Va_active args) w =
    (w\<lparr>heap := (retry_addr env w (render env fmt args),
          map Some (render env fmt args) @ Some NUL
            # replicate (retry_size (length (render env fmt args))
                - Suc (length (render env fmt args))) None) # heap w,
        trace := trace w @ [Raise_SIGINT, Malloc 512 (Some (fresh (heap w))),
          Vsnprintf AP_COPY 512 (int (length (render env fmt args))),
          Realloc (fresh (heap w)) (retry_size (length (render env fmt args)))
            (Some (retry_addr env w (render env fmt args))),
          Vsnprintf AP (retry_size (length (render env fmt args)))
            (int (length (render env fmt args)))]\<rparr>,
     Inr (int (length (render env fmt args)),
          Some (retry_addr env w (render env fmt args)), Va_spent))"
proof -
  define s where "s = render env fmt args"
  define p where "p = fresh (heap w)"
  define q where "q = retry_addr env w s"
  define n where "n = retry_size (length s)"
  define w3 where "w3 = retry_world env w s"
  define blk3 where "blk3 = probe_block s @ replicate (n - 512) None"
  define blk4 where "blk4 = map Some s @ Some NUL # replicate (n - Suc (length s)) None"
  define w4 where "w4 = log (Vsnprintf AP n (int (length s))) (w3\<lparr>heap := (q, blk4) # heap w\<rparr>)"
  have n_ge: "Suc (length s) \<le> n"
    unfolding n_def using assms(5) by (intro retry_size_ge) (simp add: s_def)
  have n_def': "to_size_t (int_wrap (int (length s) + 1)) = n"
    by (simp add: n_def retry_size_def)
  have h0: "realloc env p n (probe_world w s) = (w3, Inr (Some q))"
    using retry_realloc_ok [OF assms(4-6), of w]
    by (simp add: p_def q_def w3_def retry_world_def s_def n_def retry_size_def)
  have heap3: "heap w3 = (q, blk3) # heap w"
    by (simp add: w3_def retry_world_def q_def blk3_def n_def)
  have len3: "length blk3 = n"
    using n_ge assms(4) by (simp add: blk3_def length_probe_block s_def)
  have tk: "take (n - 1) s = s"
    using n_ge by simp
  have dr: "drop (Suc (length s)) blk3 = replicate (n - Suc (length s)) None"
    using assms(4) n_ge by (simp add: blk3_def length_probe_block s_def)
  have h1: "vsnprintf env (Suc 0) AP q n fmt (Va_active args) w3
      = (w4, Inr (int (length s), Va_spent))"
    using assms(5,7) n_ge retry_addr_notin [of env w s]
    by (simp add: vsnprintf_def s_def [symmetric] heap3 len3 tk dr Let_def store_head
        q_def [symmetric] w4_def blk4_def)
  have h3: "va_end_return Va_spent ww r = (ww, Inr r)" for ww r
    by (simp add: va_end_return_def va_end_def)
  have "portable_vasprintf env strp fmt (Va_active args) w =
      retry_pass env strp fmt (Va_active args) Va_spent p (int (length s)) (probe_world w s)"
    using assms by (simp add: probe_stage s_def p_def)
  also have "\<dots> = (w4, Inr (int (length s), Some q, Va_spent))"
    unfolding retry_pass_def by (simp add: h0 h1 h3 Let_def n_def')
  also have "w4 =
      w\<lparr>heap := (q, blk4) # heap w,
        trace := trace w @ [Raise_SIGINT, Malloc 512 (Some p),
          Vsnprintf AP_COPY 512 (int (length s)),
          Realloc p n (Some q), Vsnprintf AP n (int (length s))]\<rparr>"
    by (simp add: w4_def w3_def retry_world_def log_def p_def q_def n_def)
  finally show ?thesis
    by (simp only: s_def p_def q_def n_def blk4_def)
qed

subsection \<open>Lemmas on the runs, for the claims\<close>

lemma calls_made_append [simp]: "calls_made w (w\<lparr>trace := trace w @ evs\<rparr>) = evs"
  by (simp add: calls_made_def)

lemma calls_made_append_heap [simp]:
  "calls_made w (w\<lparr>heap := h, trace := trace w @ evs\<rparr>) = evs"
  by (simp add: calls_made_def)

lemma calls_made_probe_world [simp]:
  "calls_made w (probe_world w s) =
     [Raise_SIGINT, Malloc 512 (Some (fresh (heap w))), Vsnprintf AP_COPY 512 (int (length s))]"
  by (simp add: probe_world_def)

lemma heap_probe_world [simp]:
  "heap (probe_world w s) = (fresh (heap w), probe_block s) # heap w"
  by (simp add: probe_world_def)

text \<open>
  Every run in which the signal comes back is one of seven: each lemma above is one
  of them.
\<close>

lemma run_cases [consumes 1, case_names malloc_fails probe_error probe_too_long fits
    realloc_fails retry_error retry_ok]:
  assumes "sigint_returns env"
  obtains
    "malloc_fails env"
  | e where "\<not> malloc_fails env" "render_error env 0 fmt args = Some e"
  | "\<not> malloc_fails env" "render_error env 0 fmt args = None"
      "INT_MAX < int (length (render env fmt args))"
  | "\<not> malloc_fails env" "render_error env 0 fmt args = None"
      "length (render env fmt args) < 512"
  | "\<not> malloc_fails env" "render_error env 0 fmt args = None"
      "512 \<le> length (render env fmt args)" "int (length (render env fmt args)) \<le> INT_MAX"
      "realloc_fails env"
  | e where "\<not> malloc_fails env" "render_error env 0 fmt args = None"
      "512 \<le> length (render env fmt args)" "int (length (render env fmt args)) \<le> INT_MAX"
      "\<not> realloc_fails env" "render_error env 1 fmt args = Some e"
  | "\<not> malloc_fails env" "render_error env 0 fmt args = None"
      "512 \<le> length (render env fmt args)" "int (length (render env fmt args)) \<le> INT_MAX"
      "\<not> realloc_fails env" "render_error env 1 fmt args = None"
proof -
  consider "malloc_fails env"
    | e where "\<not> malloc_fails env" "render_error env 0 fmt args = Some e"
    | "\<not> malloc_fails env" "render_error env 0 fmt args = None"
    by (cases "render_error env 0 fmt args") auto
  then show ?thesis
  proof cases
    case 1
    then show ?thesis by (rule that(1))
  next
    case 2
    then show ?thesis by (rule that(2))
  next
    case 3
    have "INT_MAX < int (length (render env fmt args))
        \<or> length (render env fmt args) < 512
        \<or> (512 \<le> length (render env fmt args)
            \<and> int (length (render env fmt args)) \<le> INT_MAX)"
      by linarith
    then consider "INT_MAX < int (length (render env fmt args))"
      | "length (render env fmt args) < 512"
      | "512 \<le> length (render env fmt args)" "int (length (render env fmt args)) \<le> INT_MAX"
      by blast
    then show ?thesis
    proof cases
      case 1
      with 3 show ?thesis by (intro that(3))
    next
      case 2
      with 3 show ?thesis by (intro that(4))
    next
      case c: 3
      show ?thesis
      proof (cases "realloc_fails env")
        case True
        with 3 c show ?thesis by (intro that(5))
      next
        case False
        show ?thesis
        proof (cases "render_error env 1 fmt args")
          case None
          with 3 c False show ?thesis by (intro that(7))
        next
          case (Some e)
          with 3 c False show ?thesis by (intro that(6))
        qed
      qed
    qed
  qed
qed

lemma trace_starts_with_raise:
  assumes "sigint_returns env"
  shows "\<exists>evs. trace (fst (portable_vasprintf env strp fmt (Va_active args) w))
           = trace w @ Raise_SIGINT # evs"
  using assms
proof (cases rule: run_cases [where fmt = fmt and args = args])
  case malloc_fails
  show ?thesis
    by (simp add: run_malloc_fails [OF assms malloc_fails])
next
  case (probe_error e)
  show ?thesis
    by (simp add: run_probe_error [OF assms probe_error])
next
  case probe_too_long
  show ?thesis
    by (simp add: run_probe_too_long [OF assms probe_too_long])
next
  case fits
  show ?thesis
    by (simp add: run_fits [OF assms fits] probe_world_def)
next
  case realloc_fails
  show ?thesis
    by (simp add: run_realloc_fails [OF assms realloc_fails])
next
  case (retry_error e)
  show ?thesis
    by (simp add: run_retry_error [OF assms retry_error])
next
  case retry_ok
  show ?thesis
    by (simp add: run_retry_ok [OF assms retry_ok])
qed

lemma asprintf_killed:
  "\<not> sigint_returns env \<Longrightarrow>
     portable_asprintf env strp fmt args w = (log Raise_SIGINT w, Inl Killed_by_SIGINT)"
  by (simp add: portable_asprintf_def raise_SIGINT_def)

lemma asprintf_trace:
  "\<exists>evs. trace (fst (portable_asprintf env strp fmt args w)) = trace w @ Raise_SIGINT # evs"
proof (cases "sigint_returns env")
  case False
  then show ?thesis by (simp add: asprintf_killed log_def)
next
  case True
  obtain evs where evs:
    "trace (fst (portable_vasprintf env strp fmt (Va_active args) (log Raise_SIGINT w)))
       = trace (log Raise_SIGINT w) @ Raise_SIGINT # evs"
    using trace_starts_with_raise [OF True] by blast
  obtain w1 r where run: "portable_vasprintf env strp fmt (Va_active args) (log Raise_SIGINT w) = (w1, r)"
    by (cases "portable_vasprintf env strp fmt (Va_active args) (log Raise_SIGINT w)")
  have "fst (portable_asprintf env strp fmt args w) = w1"
    using True run
    by (simp add: portable_asprintf_def raise_SIGINT_def Let_def
        split: sum.splits prod.splits)
  then show ?thesis
    using evs run by (simp add: log_def)
qed

text \<open>What \<open>formatString\<close> makes of a return of the builder.\<close>

lemma formatString_after:
  assumes "portable_vasprintf env None fmt (Va_active args) w = (w1, Inr (n, p, a))"
    and "a \<noteq> Va_unset"
  shows "formatString env fmt args w =
    (case (if n \<noteq> - 1 then (w1, assign_c_str p w1) else (log Cerr_message w1, Inr ''''))
     of
       (w2, Inl x) \<Rightarrow> (w2, Inl x)
     | (w2, Inr retString) \<Rightarrow>
         (case free p w2 of
            (w3, Inl x) \<Rightarrow> (w3, Inl x)
          | (w3, Inr u) \<Rightarrow> (w3, Inr retString)))"
  using assms by (cases a) (simp_all add: formatString_def va_end_def Let_def)

lemma run_shape:
  assumes "sigint_returns env"
  shows "\<exists>w1 n p a.
      portable_vasprintf env strp fmt (Va_active args) w = (w1, Inr (n, p, a))
    \<and> a \<noteq> Va_unset
    \<and> (n < 0 \<longrightarrow> p = strp \<and> heap w1 = heap w)
    \<and> (render_error env 1 fmt args \<in> {None, Some 0} \<longrightarrow> n < 0 \<longrightarrow> n = - 1)"
  using assms
proof (cases rule: run_cases [where fmt = fmt and args = args])
  case malloc_fails
  show ?thesis
    by (simp add: run_malloc_fails [OF assms malloc_fails])
next
  case (probe_error e)
  show ?thesis
    by (simp add: run_probe_error [OF assms probe_error])
next
  case probe_too_long
  show ?thesis
    by (simp add: run_probe_too_long [OF assms probe_too_long])
next
  case fits
  show ?thesis
    by (simp add: run_fits [OF assms fits])
next
  case realloc_fails
  show ?thesis
    by (simp add: run_realloc_fails [OF assms realloc_fails])
next
  case (retry_error e)
  show ?thesis
    using retry_error(6) by (simp add: run_retry_error [OF assms retry_error])
next
  case retry_ok
  show ?thesis
    by (simp add: run_retry_ok [OF assms retry_ok])
qed

lemma formatString_on_minus_one:
  assumes "portable_vasprintf env None fmt (Va_active args) w = (w1, Inr (- 1, None, a))"
    and "a \<noteq> Va_unset"
  shows "formatString env fmt args w = (log Cerr_message w1, Inr '''')"
  using formatString_after [OF assms] by (simp add: free_def)

lemma run_retry_fails_with:
  "snd (portable_vasprintf (retry_fails_with e) None (replicate 512 CHR ''x'') (Va_active [])
      empty_world) = Inr (- int (Suc e), None, Va_spent)"
  by (subst run_retry_error [where e = e])
    (simp_all add: retry_fails_with_def calm_env_def INT_MAX_def)

lemma run_calm_ok:
  "snd (portable_vasprintf calm_env None ''ok'' (Va_active []) empty_world)
     = Inr (2, Some 1, Va_active [])"
  by (subst run_fits) (simp_all add: calm_env_def empty_world_def fresh_def)

lemma free_trace: "\<exists>evs. trace (fst (free p w)) = trace w @ evs"
  by (simp add: free_def log_def split: option.splits)

lemma formatString_killed:
  "\<not> sigint_returns env \<Longrightarrow>
     formatString env fmt args w = (log Raise_SIGINT w, Inl Killed_by_SIGINT)"
  by (simp add: formatString_def run_killed)

lemma fst_after_free:
  "fst (case free p w2 of (w3, Inl x) \<Rightarrow> (w3, Inl x) | (w3, Inr u) \<Rightarrow> (w3, Inr r))
     = fst (free p w2)"
  by (simp split: prod.splits sum.splits)

lemma formatString_trace:
  "\<exists>evs. trace (fst (formatString env fmt args w)) = trace w @ Raise_SIGINT # evs"
proof (cases "sigint_returns env")
  case False
  then show ?thesis by (simp add: formatString_killed log_def)
next
  case True
  from run_shape [OF True, of None fmt args w]
  obtain w1 n p a where run: "portable_vasprintf env None fmt (Va_active args) w = (w1, Inr (n, p, a))"
    and a: "a \<noteq> Va_unset"
    by blast
  obtain evs1 where t1: "trace w1 = trace w @ Raise_SIGINT # evs1"
    using trace_starts_with_raise [OF True, of None fmt args w] run by auto
  note fs = formatString_after [OF run a]
  show ?thesis
  proof (cases "n = - 1")
    case True
    obtain evs3 where
      "trace (fst (free p (log Cerr_message w1))) = trace (log Cerr_message w1) @ evs3"
      using free_trace by blast
    then show ?thesis
      using True t1 by (simp add: fs fst_after_free log_def)
  next
    case False
    show ?thesis
    proof (cases "assign_c_str p w1")
      case (Inl x)
      then show ?thesis
        using False t1 by (simp add: fs)
    next
      case (Inr s)
      obtain evs2 where "trace (fst (free p w1)) = trace w1 @ evs2"
        using free_trace by blast
      then show ?thesis
        using False Inr t1 by (simp add: fs fst_after_free)
    qed
  qed
qed

subsection \<open>The claims on the builder and on formatString\<close>

text \<open>
  Claim C1, as the code has it. For every template and argument list whose fully
  rendered length is below the probe capacity 512 (when the raised signal comes
  back, \<^verbatim>\<open>malloc\<close> delivers and the primitive reports no error), the builder
  succeeds on the first pass: it returns the rendered length, it renders once and
  never calls \<^verbatim>\<open>realloc\<close>, and it hands the caller the probe buffer itself. That
  buffer has the 512 bytes it was allocated with; its first rendered-length + 1 bytes
  are the rendered text and the terminator.
\<close>

theorem first_pass_transfers_probe_buffer:
  assumes "sigint_returns env" "\<not> malloc_fails env"
    and "render_error env 0 fmt args = None"
    and "length (render env fmt args) < 512"
  shows "\<exists>w' p blk.
      portable_vasprintf env strp fmt (Va_active args) w
        = (w', Inr (int (length (render env fmt args)), Some p, Va_active args))
    \<and> heap w' = (p, blk) # heap w \<and> p \<notin> fst ` set (heap w)
    \<and> length blk = 512
    \<and> take (Suc (length (render env fmt args))) blk = map Some (render env fmt args) @ [Some NUL]
    \<and> calls_made w w' = [Raise_SIGINT, Malloc 512 (Some p),
          Vsnprintf AP_COPY 512 (int (length (render env fmt args)))]"
  using fresh_notin [of "heap w"] assms(4)
  by (simp add: run_fits [OF assms] length_probe_block probe_block_fits)

theorem first_pass_transfers_probe_buffer_witness:
  "sigint_returns calm_env \<and> \<not> malloc_fails calm_env
   \<and> render_error calm_env 0 ''cart has 3 items'' [] = None
   \<and> length (render calm_env ''cart has 3 items'' []) < 512
   \<and> (\<exists>w' p blk.
         portable_vasprintf calm_env None ''cart has 3 items'' (Va_active []) empty_world
           = (w', Inr (16, Some p, Va_active []))
       \<and> heap w' = [(p, blk)] \<and> length blk = 512
       \<and> take (Suc (length ''cart has 3 items'')) blk = map Some ''cart has 3 items'' @ [Some NUL]
       \<and> calls_made empty_world w' = [Raise_SIGINT, Malloc 512 (Some p), Vsnprintf AP_COPY 512 16])"
  using first_pass_transfers_probe_buffer
    [of calm_env "''cart has 3 items''" "[]" None empty_world]
  by (simp add: calm_env_def empty_world_def)

text \<open>
  Claim C1 as stated fails in the size of the buffer: for the empty template the
  rendered length is 0, and the buffer handed to the caller has 512 bytes, not 1.
\<close>

theorem first_pass_buffer_size_counterexample:
  "portable_vasprintf calm_env None '''' (Va_active []) empty_world
     = (\<lparr>heap = [(1, Some NUL # replicate 511 None)],
         trace = [Raise_SIGINT, Malloc 512 (Some 1), Vsnprintf AP_COPY 512 0]\<rparr>,
        Inr (0, Some 1, Va_active []))
   \<and> length (Some NUL # replicate 511 (None :: char option))
       \<noteq> length (render calm_env '''' []) + 1"
proof -
  have "portable_vasprintf calm_env None '''' (Va_active []) empty_world
      = (probe_world empty_world (render calm_env '''' []),
         Inr (int (length (render calm_env '''' [])), Some (fresh (heap empty_world)),
           Va_active []))"
    by (rule run_fits) (simp_all add: calm_env_def)
  then show ?thesis
    by (simp add: calm_env_def probe_world_def probe_block_def empty_world_def fresh_def)
qed

text \<open>
  Claim C2. The fit test is strict. Whenever the probe pass reports a required
  length (the signal came back, \<^verbatim>\<open>malloc\<close> delivered, the primitive reported no
  error), the builder enters the retry branch, that is, calls \<^verbatim>\<open>realloc\<close>, if and
  only if that length is at least 512. Below 512 it returns the probe buffer after
  one rendering; from 512 on it renders a second time when \<^verbatim>\<open>realloc\<close> delivers,
  and fails with \<open>-1\<close> when it does not. The witness evaluates the lengths 511 and
  512.
\<close>

theorem fit_test_is_strict:
  assumes "sigint_returns env" "\<not> malloc_fails env"
    and "render_error env 0 fmt args = None"
    and "int (length (render env fmt args)) \<le> INT_MAX"
  shows "(list_ex is_realloc (calls_made w (fst (portable_vasprintf env strp fmt (Va_active args) w)))
          \<longleftrightarrow> 512 \<le> length (render env fmt args))
    \<and> (length (render env fmt args) < 512 \<longrightarrow>
          snd (portable_vasprintf env strp fmt (Va_active args) w)
            = Inr (int (length (render env fmt args)), Some (fresh (heap w)), Va_active args)
          \<and> length (filter is_render
                (calls_made w (fst (portable_vasprintf env strp fmt (Va_active args) w)))) = 1)
    \<and> (512 \<le> length (render env fmt args) \<and> \<not> realloc_fails env \<longrightarrow>
          length (filter is_render
                (calls_made w (fst (portable_vasprintf env strp fmt (Va_active args) w)))) = 2)
    \<and> (512 \<le> length (render env fmt args) \<and> realloc_fails env \<longrightarrow>
          snd (portable_vasprintf env strp fmt (Va_active args) w) = Inr (- 1, strp, Va_active args))"
  using assms(1)
proof (cases rule: run_cases [where fmt = fmt and args = args])
  case malloc_fails
  with assms show ?thesis by simp
next
  case (probe_error e)
  with assms show ?thesis by simp
next
  case probe_too_long
  with assms show ?thesis by simp
next
  case fits
  then show ?thesis
    by (simp add: run_fits [OF assms(1) fits])
next
  case realloc_fails
  then show ?thesis
    by (simp add: run_realloc_fails [OF assms(1) realloc_fails])
next
  case (retry_error e)
  then show ?thesis
    by (simp add: run_retry_error [OF assms(1) retry_error])
next
  case retry_ok
  then show ?thesis
    by (simp add: run_retry_ok [OF assms(1) retry_ok])
qed

theorem fit_test_is_strict_witness:
  "sigint_returns calm_env \<and> \<not> malloc_fails calm_env
   \<and> render_error calm_env 0 (replicate 511 CHR ''x'') [] = None
   \<and> int (length (render calm_env (replicate 511 CHR ''x'') [])) \<le> INT_MAX
   \<and> length (render calm_env (replicate 511 CHR ''x'') []) < 512
   \<and> \<not> list_ex is_realloc (calls_made empty_world
         (fst (portable_vasprintf calm_env None (replicate 511 CHR ''x'') (Va_active []) empty_world)))
   \<and> snd (portable_vasprintf calm_env None (replicate 511 CHR ''x'') (Va_active []) empty_world)
       = Inr (511, Some 1, Va_active [])
   \<and> length (filter is_render (calls_made empty_world
         (fst (portable_vasprintf calm_env None (replicate 511 CHR ''x'') (Va_active []) empty_world))))
       = 1
   \<and> render_error calm_env 0 (replicate 512 CHR ''x'') [] = None
   \<and> int (length (render calm_env (replicate 512 CHR ''x'') [])) \<le> INT_MAX
   \<and> 512 \<le> length (render calm_env (replicate 512 CHR ''x'') [])
   \<and> \<not> realloc_fails calm_env
   \<and> list_ex is_realloc (calls_made empty_world
         (fst (portable_vasprintf calm_env None (replicate 512 CHR ''x'') (Va_active []) empty_world)))
   \<and> length (filter is_render (calls_made empty_world
         (fst (portable_vasprintf calm_env None (replicate 512 CHR ''x'') (Va_active []) empty_world))))
       = 2
   \<and> realloc_fails (calm_env\<lparr>realloc_fails := True\<rparr>)
   \<and> snd (portable_vasprintf (calm_env\<lparr>realloc_fails := True\<rparr>) None (replicate 512 CHR ''x'')
         (Va_active []) empty_world)
       = Inr (- 1, None, Va_active [])"
  using fit_test_is_strict [of calm_env "replicate 511 CHR ''x''" "[]" empty_world None]
    fit_test_is_strict [of calm_env "replicate 512 CHR ''x''" "[]" empty_world None]
    fit_test_is_strict [of "calm_env\<lparr>realloc_fails := True\<rparr>" "replicate 512 CHR ''x''" "[]"
      empty_world None]
  by (simp add: calm_env_def INT_MAX_def empty_world_def fresh_def)

text \<open>
  The retry pass below \<^verbatim>\<open>INT_MAX\<close>. For every template and argument list whose
  rendered length \<open>L\<close> is at least 512 and below \<^verbatim>\<open>INT_MAX\<close>, when the signal
  comes back, both allocations deliver and the primitive reports no error, the
  builder asks \<^verbatim>\<open>realloc\<close> for \<open>L + 1\<close> bytes and renders the same template a
  second time: the probe pass reads the arguments through the copy \<open>ap_copy\<close>, the
  retry pass through the original \<open>ap\<close>, which no call has read before. The buffer
  handed to the caller has exactly \<open>L + 1\<close> bytes: the text of the reference
  formatter and the terminator. The probe buffer is gone from the heap.
\<close>

theorem retry_pass_renders_reference_text:
  assumes "sigint_returns env" "\<not> malloc_fails env" "\<not> realloc_fails env"
    and "render_error env 0 fmt args = None" "render_error env 1 fmt args = None"
    and "512 \<le> length (render env fmt args)"
    and "int (length (render env fmt args)) < INT_MAX"
  shows "\<exists>w' p q.
      portable_vasprintf env strp fmt (Va_active args) w
        = (w', Inr (int (length (render env fmt args)), Some q, Va_spent))
    \<and> heap w' = (q, map Some (render env fmt args) @ [Some NUL]) # heap w
    \<and> q \<notin> fst ` set (heap w)
    \<and> calls_made w w' =
        [Raise_SIGINT, Malloc 512 (Some p),
         Vsnprintf AP_COPY 512 (int (length (render env fmt args))),
         Realloc p (Suc (length (render env fmt args))) (Some q),
         Vsnprintf AP (Suc (length (render env fmt args))) (int (length (render env fmt args)))]"
proof -
  have le: "int (length (render env fmt args)) \<le> INT_MAX"
    using assms(7) by simp
  show ?thesis
    using retry_addr_notin [of env w "render env fmt args"]
    by (simp add: run_retry_ok [OF assms(1,2,4,6) le assms(3,5)] retry_size_exact [OF assms(7)])
qed

theorem retry_pass_renders_reference_text_witness:
  "sigint_returns calm_env \<and> \<not> malloc_fails calm_env \<and> \<not> realloc_fails calm_env
   \<and> render_error calm_env 0 (replicate 1000 CHR ''x'') [] = None
   \<and> render_error calm_env 1 (replicate 1000 CHR ''x'') [] = None
   \<and> 512 \<le> length (render calm_env (replicate 1000 CHR ''x'') [])
   \<and> int (length (render calm_env (replicate 1000 CHR ''x'') [])) < INT_MAX
   \<and> (\<exists>w' p q.
         portable_vasprintf calm_env None (replicate 1000 CHR ''x'') (Va_active []) empty_world
           = (w', Inr (1000, Some q, Va_spent))
       \<and> heap w' = [(q, map Some (replicate 1000 CHR ''x'') @ [Some NUL])]
       \<and> calls_made empty_world w' =
           [Raise_SIGINT, Malloc 512 (Some p), Vsnprintf AP_COPY 512 1000,
            Realloc p 1001 (Some q), Vsnprintf AP 1001 1000])"
  using retry_pass_renders_reference_text
    [of calm_env "replicate 1000 CHR ''x''" "[]" None empty_world]
  by (simp add: calm_env_def INT_MAX_def empty_world_def)

text \<open>
  Claim C3 fails on the code at the rendered length \<^verbatim>\<open>INT_MAX\<close> = 2147483647, which
  the probe pass can report. There \<^verbatim>\<open>length = nchars + 1\<close> leaves the range of
  \<^verbatim>\<open>int\<close>, and the size passed to \<^verbatim>\<open>realloc\<close> is \<open>2^64 - 2^31\<close> =
  18446744071562067968 bytes instead of the \<open>2^31\<close> bytes that hold the text and its
  terminator. No allocator delivers that: the builder frees the probe buffer and
  returns \<open>-1\<close>, and the caller gets no rendered text.
\<close>

theorem retry_request_overflows_at_INT_MAX:
  "retry_size 2147483647 = 18446744071562067968
   \<and> length (render calm_env (replicate 2147483647 CHR ''x'') []) + 1 = 2147483648
   \<and> portable_vasprintf (calm_env\<lparr>realloc_fails := True\<rparr>) None
        (replicate 2147483647 CHR ''x'') (Va_active []) empty_world
     = (\<lparr>heap = [],
         trace = [Raise_SIGINT, Malloc 512 (Some 1), Vsnprintf AP_COPY 512 2147483647,
                  Realloc 1 18446744071562067968 None, Free 1]\<rparr>,
        Inr (- 1, None, Va_active []))"
proof -
  have sz: "retry_size 2147483647 = 18446744071562067968"
    by (simp add: retry_size_def to_size_t_def int_wrap_def)
  have run: "portable_vasprintf (calm_env\<lparr>realloc_fails := True\<rparr>) None
        (replicate 2147483647 CHR ''x'') (Va_active []) empty_world
     = (\<lparr>heap = [],
         trace = [Raise_SIGINT, Malloc 512 (Some 1), Vsnprintf AP_COPY 512 2147483647,
                  Realloc 1 18446744071562067968 None, Free 1]\<rparr>,
        Inr (- 1, None, Va_active []))"
    by (subst run_realloc_fails)
      (simp_all add: calm_env_def INT_MAX_def sz empty_world_def fresh_def)
  show ?thesis
    using sz run by (simp add: calm_env_def)
qed

text \<open>
  Claim C4. In every run in which the raised signal comes back, the builder returns
  to its caller, and it returns a negative value exactly when an allocation request
  returned the null pointer or a call of the primitive, on the probe pass or on the
  retry pass, returned a negative value. On such a return \<^verbatim>\<open>*strp\<close> is as the
  caller left it and the heap is the heap of the call: every buffer the call
  allocated has been released. On a non-negative return \<^verbatim>\<open>*strp\<close> holds one
  buffer, the only block added to the heap. So failure is distinct from success.
\<close>

theorem failure_is_reported_and_released:
  assumes "sigint_returns env"
  shows "\<exists>w' n strp' ap'.
      portable_vasprintf env strp fmt (Va_active args) w = (w', Inr (n, strp', ap'))
    \<and> (list_ex is_failure (calls_made w w') \<longleftrightarrow> n < 0)
    \<and> (n < 0 \<longrightarrow> strp' = strp \<and> heap w' = heap w)
    \<and> (0 \<le> n \<longrightarrow> (\<exists>p blk. strp' = Some p \<and> heap w' = (p, blk) # heap w))"
  using assms
proof (cases rule: run_cases [where fmt = fmt and args = args])
  case malloc_fails
  show ?thesis
    by (simp add: run_malloc_fails [OF assms malloc_fails])
next
  case (probe_error e)
  show ?thesis
    by (simp add: run_probe_error [OF assms probe_error])
next
  case probe_too_long
  show ?thesis
    by (simp add: run_probe_too_long [OF assms probe_too_long])
next
  case fits
  show ?thesis
    by (simp add: run_fits [OF assms fits])
next
  case realloc_fails
  show ?thesis
    by (simp add: run_realloc_fails [OF assms realloc_fails])
next
  case (retry_error e)
  show ?thesis
    by (simp add: run_retry_error [OF assms retry_error])
next
  case retry_ok
  show ?thesis
    by (simp add: run_retry_ok [OF assms retry_ok])
qed

theorem failure_is_reported_and_released_witness:
  "sigint_returns (retry_fails_with 1)
   \<and> snd (portable_vasprintf (retry_fails_with 1) None (replicate 512 CHR ''x'') (Va_active [])
        empty_world) = Inr (- 2, None, Va_spent)
   \<and> list_ex is_failure (calls_made empty_world
        (fst (portable_vasprintf (retry_fails_with 1) None (replicate 512 CHR ''x'') (Va_active [])
          empty_world)))
   \<and> heap (fst (portable_vasprintf (retry_fails_with 1) None (replicate 512 CHR ''x'')
        (Va_active []) empty_world)) = heap empty_world
   \<and> sigint_returns calm_env
   \<and> snd (portable_vasprintf calm_env None ''ok'' (Va_active []) empty_world)
       = Inr (2, Some 1, Va_active [])
   \<and> \<not> list_ex is_failure (calls_made empty_world
        (fst (portable_vasprintf calm_env None ''ok'' (Va_active []) empty_world)))
   \<and> (\<exists>blk. heap (fst (portable_vasprintf calm_env None ''ok'' (Va_active []) empty_world))
        = (1, blk) # heap empty_world)"
proof -
  have 1: "sigint_returns (retry_fails_with 1)" and 2: "sigint_returns calm_env"
    by (simp_all add: retry_fails_with_def calm_env_def)
  show ?thesis
    using failure_is_reported_and_released
      [OF 1, of None "replicate 512 CHR ''x''" "[]" empty_world]
      failure_is_reported_and_released [OF 2, of None "''ok''" "[]" empty_world]
      run_retry_fails_with [of 1] run_calm_ok 1 2
    by auto
qed

text \<open>
  Claim C5. In every run in which the raised signal comes back, the builder makes
  one or two allocation requests (\<^verbatim>\<open>malloc\<close>, and \<^verbatim>\<open>realloc\<close> on the retry
  branch) and returns with every allocation resolved: either the heap is the heap of
  the call (all released, a failure), or it holds one block more, at a fresh address,
  which is the buffer handed to the caller and was not freed. No address is freed
  twice, every freed address was handed out by the allocator during the call, and
  no run ends in an invalid \<^verbatim>\<open>free\<close>.
\<close>

theorem allocations_are_resolved:
  assumes "sigint_returns env"
  shows "\<exists>w' n strp' ap'.
      portable_vasprintf env strp fmt (Va_active args) w = (w', Inr (n, strp', ap'))
    \<and> (length (filter is_allocation (calls_made w w')) = 1
        \<or> length (filter is_allocation (calls_made w w')) = 2)
    \<and> ((n < 0 \<and> strp' = strp \<and> heap w' = heap w)
        \<or> (0 \<le> n \<and> (\<exists>p blk. strp' = Some p \<and> p \<notin> fst ` set (heap w)
               \<and> p \<notin> set (freed (calls_made w w')) \<and> heap w' = (p, blk) # heap w)))
    \<and> distinct (freed (calls_made w w'))
    \<and> set (freed (calls_made w w')) \<subseteq> set (obtained (calls_made w w'))"
  using assms
proof (cases rule: run_cases [where fmt = fmt and args = args])
  case malloc_fails
  show ?thesis
    by (simp add: run_malloc_fails [OF assms malloc_fails])
next
  case (probe_error e)
  show ?thesis
    by (simp add: run_probe_error [OF assms probe_error])
next
  case probe_too_long
  show ?thesis
    by (simp add: run_probe_too_long [OF assms probe_too_long])
next
  case fits
  show ?thesis
    using fresh_notin [of "heap w"] by (simp add: run_fits [OF assms fits])
next
  case realloc_fails
  show ?thesis
    by (simp add: run_realloc_fails [OF assms realloc_fails])
next
  case (retry_error e)
  show ?thesis
    by (simp add: run_retry_error [OF assms retry_error])
next
  case retry_ok
  show ?thesis
    using retry_addr_notin [of env w "render env fmt args"]
    by (simp add: run_retry_ok [OF assms retry_ok])
qed

theorem allocations_are_resolved_witness:
  "sigint_returns (retry_fails_with 1)
   \<and> snd (portable_vasprintf (retry_fails_with 1) None (replicate 512 CHR ''x'') (Va_active [])
        empty_world) = Inr (- 2, None, Va_spent)
   \<and> length (filter is_allocation (calls_made empty_world
        (fst (portable_vasprintf (retry_fails_with 1) None (replicate 512 CHR ''x'') (Va_active [])
          empty_world)))) \<in> {1, 2}
   \<and> heap (fst (portable_vasprintf (retry_fails_with 1) None (replicate 512 CHR ''x'')
        (Va_active []) empty_world)) = heap empty_world
   \<and> distinct (freed (calls_made empty_world
        (fst (portable_vasprintf (retry_fails_with 1) None (replicate 512 CHR ''x'') (Va_active [])
          empty_world))))
   \<and> sigint_returns calm_env
   \<and> snd (portable_vasprintf calm_env None ''ok'' (Va_active []) empty_world)
       = Inr (2, Some 1, Va_active [])
   \<and> length (filter is_allocation (calls_made empty_world
        (fst (portable_vasprintf calm_env None ''ok'' (Va_active []) empty_world)))) \<in> {1, 2}
   \<and> (\<exists>blk. heap (fst (portable_vasprintf calm_env None ''ok'' (Va_active []) empty_world))
        = (1, blk) # heap empty_world)
   \<and> 1 \<notin> set (freed (calls_made empty_world
        (fst (portable_vasprintf calm_env None ''ok'' (Va_active []) empty_world))))"
proof -
  have 1: "sigint_returns (retry_fails_with 1)" and 2: "sigint_returns calm_env"
    by (simp_all add: retry_fails_with_def calm_env_def)
  show ?thesis
    using allocations_are_resolved
      [OF 1, of None "replicate 512 CHR ''x''" "[]" empty_world]
      allocations_are_resolved [OF 2, of None "''ok''" "[]" empty_world]
      run_retry_fails_with [of 1] run_calm_ok 1 2
    by auto
qed

text \<open>
  Claim C6 fails on the code: the first statement of \<open>portable_vasprintf\<close> and of
  \<open>portable_asprintf\<close> is \<^verbatim>\<open>std::raise(SIGINT)\<close>. In every environment and for
  every input the trace of a call of the builder, of \<open>portable_asprintf\<close> and of
  \<open>formatString\<close> starts with the raised signal, and where the signal does not come
  back (the default disposition of \<^verbatim>\<open>SIGINT\<close>) the call ends the process before it
  allocates or formats anything.
\<close>

theorem every_call_raises_SIGINT:
  "(\<exists>evs. trace (fst (portable_vasprintf env strp fmt (Va_active args) w))
       = trace w @ Raise_SIGINT # evs)
   \<and> (\<exists>evs. trace (fst (portable_asprintf env strp fmt args w))
       = trace w @ Raise_SIGINT # evs)
   \<and> (\<exists>evs. trace (fst (formatString env fmt args w))
       = trace w @ Raise_SIGINT # evs)
   \<and> portable_vasprintf (env\<lparr>sigint_returns := False\<rparr>) strp fmt ap w
       = (log Raise_SIGINT w, Inl Killed_by_SIGINT)
   \<and> portable_asprintf (env\<lparr>sigint_returns := False\<rparr>) strp fmt args w
       = (log Raise_SIGINT w, Inl Killed_by_SIGINT)
   \<and> formatString (env\<lparr>sigint_returns := False\<rparr>) fmt args w
       = (log Raise_SIGINT w, Inl Killed_by_SIGINT)"
proof -
  have 1: "\<exists>evs. trace (fst (portable_vasprintf env strp fmt (Va_active args) w))
       = trace w @ Raise_SIGINT # evs"
  proof (cases "sigint_returns env")
    case True
    then show ?thesis by (rule trace_starts_with_raise)
  next
    case False
    then show ?thesis by (simp add: run_killed log_def)
  qed
  show ?thesis
    using 1 asprintf_trace [of env strp fmt args w] formatString_trace [of env fmt args w]
    by (simp add: run_killed asprintf_killed formatString_killed)
qed

text \<open>
  What \<open>formatString\<close> returns, by the return of the builder. Whenever the builder
  returns \<open>-1\<close>, \<open>formatString\<close> returns the empty string, its last action is the
  diagnostic message, and the heap is as before the call. Every negative return of
  the builder is \<open>-1\<close> when the primitive reports its retry-pass errors as \<open>-1\<close>.
  A successful rendering of an empty text returns the empty string as well, without
  the message.
\<close>

lemma formatString_minus_one_cases:
  "(snd (portable_vasprintf env None fmt (Va_active args) w) = Inr (- 1, p, a) \<longrightarrow>
      snd (formatString env fmt args w) = Inr ''''
      \<and> last (trace (fst (formatString env fmt args w))) = Cerr_message
      \<and> heap (fst (formatString env fmt args w)) = heap w)
   \<and> (sigint_returns env \<and> render_error env 1 fmt args \<in> {None, Some 0}
        \<and> snd (portable_vasprintf env None fmt (Va_active args) w) = Inr (n, p, a) \<and> n < 0 \<longrightarrow>
      n = - 1)
   \<and> (sigint_returns env \<and> \<not> malloc_fails env \<and> render_error env 0 fmt args = None
        \<and> render env fmt args = [] \<longrightarrow>
      snd (formatString env fmt args w) = Inr ''''
      \<and> Cerr_message \<notin> set (calls_made w (fst (formatString env fmt args w))))"
proof (intro conjI impI)
  assume r: "snd (portable_vasprintf env None fmt (Va_active args) w) = Inr (- 1, p, a)"
  have sr: "sigint_returns env"
  proof (rule ccontr)
    assume "\<not> sigint_returns env"
    then show False using r by (simp add: run_killed)
  qed
  from run_shape [OF sr, of None fmt args w] r
  obtain w1 where run: "portable_vasprintf env None fmt (Va_active args) w = (w1, Inr (- 1, None, a))"
    and a: "a \<noteq> Va_unset" and h: "heap w1 = heap w"
    by auto
  have fs: "formatString env fmt args w = (log Cerr_message w1, Inr '''')"
    using run a by (rule formatString_on_minus_one)
  show "snd (formatString env fmt args w) = Inr ''''"
    and "last (trace (fst (formatString env fmt args w))) = Cerr_message"
    and "heap (fst (formatString env fmt args w)) = heap w"
    using h by (simp_all add: fs log_def)
next
  assume "sigint_returns env \<and> render_error env 1 fmt args \<in> {None, Some 0}
        \<and> snd (portable_vasprintf env None fmt (Va_active args) w) = Inr (n, p, a) \<and> n < 0"
  then show "n = - 1"
    using run_shape [of env None fmt args w] by auto
next
  assume a: "sigint_returns env \<and> \<not> malloc_fails env \<and> render_error env 0 fmt args = None
        \<and> render env fmt args = []"
  then have run: "portable_vasprintf env None fmt (Va_active args) w =
      (probe_world w [], Inr (0, Some (fresh (heap w)), Va_active args))"
    using run_fits [of env fmt args None w] by simp
  have cs: "assign_c_str (Some (fresh (heap w))) (probe_world w []) = Inr ''''"
    by (simp add: assign_c_str_def probe_block_def)
  have fr: "free (Some (fresh (heap w))) (probe_world w [])
      = (w\<lparr>trace := trace w @ [Raise_SIGINT, Malloc 512 (Some (fresh (heap w))),
            Vsnprintf AP_COPY 512 0, Free (fresh (heap w))]\<rparr>, Inr ())"
    using fresh_notin [of "heap w"]
    by (simp add: free_def probe_world_def log_def release_head)
  have fs: "formatString env fmt args w
      = (w\<lparr>trace := trace w @ [Raise_SIGINT, Malloc 512 (Some (fresh (heap w))),
            Vsnprintf AP_COPY 512 0, Free (fresh (heap w))]\<rparr>, Inr '''')"
    using formatString_after [OF run] by (simp add: cs fr)
  show "snd (formatString env fmt args w) = Inr ''''"
    and "Cerr_message \<notin> set (calls_made w (fst (formatString env fmt args w)))"
    by (simp_all add: fs)
qed

text \<open>
  The hypothesis on the error value of the primitive is not idle. On the retry pass
  the builder returns the value of the primitive as it is; were that \<open>-2\<close>, the test
  \<^verbatim>\<open>numChar != -1\<close> of \<open>formatString\<close> would take the call for a success and
  assign the string from \<^verbatim>\<open>auxPtr\<close>, which is still the null pointer.
\<close>

lemma formatString_on_other_negative_value:
  "snd (portable_vasprintf (retry_fails_with 1) None (replicate 512 CHR ''x'') (Va_active [])
      empty_world) = Inr (- 2, None, Va_spent)
   \<and> snd (formatString (retry_fails_with 1) (replicate 512 CHR ''x'') [] empty_world)
       = Inl UB_null_string"
proof -
  obtain w1 where run:
    "portable_vasprintf (retry_fails_with 1) None (replicate 512 CHR ''x'') (Va_active [])
      empty_world = (w1, Inr (- 2, None, Va_spent))"
    using run_retry_fails_with [of 1]
    by (cases "portable_vasprintf (retry_fails_with 1) None (replicate 512 CHR ''x'')
        (Va_active []) empty_world") simp
  show ?thesis
    using formatString_after [OF run] run by (simp add: assign_c_str_def)
qed

text \<open>
  Claim C10. The primitive reports its errors as \<open>-1\<close>, as the C libraries do (the
  hypothesis says so for the retry pass, the one pass whose value the builder returns
  as it is). Then whenever the builder reports a failure, that is, returns a negative
  value, \<open>formatString\<close> returns the empty string, its last action is the diagnostic
  message, and the heap is as before the call. A successful rendering of an empty
  text returns the empty string as well, without the message: the returned string
  alone does not tell the two apart.
\<close>

theorem formatString_empty_on_builder_failure:
  assumes "render_error env 1 fmt args \<in> {None, Some 0}"
  shows "(snd (portable_vasprintf env None fmt (Va_active args) w) = Inr (n, p, a) \<and> n < 0 \<longrightarrow>
            snd (formatString env fmt args w) = Inr ''''
            \<and> last (trace (fst (formatString env fmt args w))) = Cerr_message
            \<and> heap (fst (formatString env fmt args w)) = heap w)
       \<and> (sigint_returns env \<and> \<not> malloc_fails env \<and> render_error env 0 fmt args = None
            \<and> render env fmt args = [] \<longrightarrow>
            snd (formatString env fmt args w) = Inr ''''
            \<and> Cerr_message \<notin> set (calls_made w (fst (formatString env fmt args w))))"
proof (intro conjI impI)
  assume r: "snd (portable_vasprintf env None fmt (Va_active args) w) = Inr (n, p, a) \<and> n < 0"
  have sr: "sigint_returns env"
  proof (rule ccontr)
    assume "\<not> sigint_returns env"
    then show False using r by (simp add: run_killed)
  qed
  have n: "n = - 1"
    using formatString_minus_one_cases [of env fmt args w p a n] sr assms r by blast
  with r have "snd (portable_vasprintf env None fmt (Va_active args) w) = Inr (- 1, p, a)"
    by simp
  then show "snd (formatString env fmt args w) = Inr ''''"
    and "last (trace (fst (formatString env fmt args w))) = Cerr_message"
    and "heap (fst (formatString env fmt args w)) = heap w"
    using formatString_minus_one_cases [of env fmt args w p a n] by blast+
next
  assume "sigint_returns env \<and> \<not> malloc_fails env \<and> render_error env 0 fmt args = None
            \<and> render env fmt args = []"
  then show "snd (formatString env fmt args w) = Inr ''''"
    and "Cerr_message \<notin> set (calls_made w (fst (formatString env fmt args w)))"
    using formatString_minus_one_cases [of env fmt args w p a n] by blast+
qed

lemma run_malloc_refused:
  "snd (portable_vasprintf (calm_env\<lparr>malloc_fails := True\<rparr>) None ''abc'' (Va_active [])
      empty_world) = Inr (- 1, None, Va_active [])"
  by (subst run_malloc_fails) (simp_all add: calm_env_def)

theorem formatString_empty_on_builder_failure_witness:
  "render_error (retry_fails_with 0) 1 (replicate 512 CHR ''x'') [] \<in> {None, Some 0}
   \<and> snd (portable_vasprintf (retry_fails_with 0) None (replicate 512 CHR ''x'') (Va_active [])
        empty_world) = Inr (- 1, None, Va_spent)
   \<and> (- 1 :: int) < 0
   \<and> snd (formatString (retry_fails_with 0) (replicate 512 CHR ''x'') [] empty_world) = Inr ''''
   \<and> last (trace (fst (formatString (retry_fails_with 0) (replicate 512 CHR ''x'') []
        empty_world))) = Cerr_message
   \<and> render_error (calm_env\<lparr>malloc_fails := True\<rparr>) 1 ''abc'' [] \<in> {None, Some 0}
   \<and> snd (portable_vasprintf (calm_env\<lparr>malloc_fails := True\<rparr>) None ''abc'' (Va_active [])
        empty_world) = Inr (- 1, None, Va_active [])
   \<and> snd (formatString (calm_env\<lparr>malloc_fails := True\<rparr>) ''abc'' [] empty_world) = Inr ''''
   \<and> render_error calm_env 1 '''' [] \<in> {None, Some 0}
   \<and> sigint_returns calm_env \<and> \<not> malloc_fails calm_env
   \<and> render_error calm_env 0 '''' [] = None
   \<and> render calm_env '''' [] = []
   \<and> snd (formatString calm_env '''' [] empty_world) = Inr ''''
   \<and> Cerr_message \<notin> set (calls_made empty_world (fst (formatString calm_env '''' [] empty_world)))"
proof -
  have 1: "render_error (retry_fails_with 0) 1 (replicate 512 CHR ''x'') [] \<in> {None, Some 0}"
    and 2: "render_error (calm_env\<lparr>malloc_fails := True\<rparr>) 1 ''abc'' [] \<in> {None, Some 0}"
    and 3: "render_error calm_env 1 '''' [] \<in> {None, Some 0}"
    by (simp_all add: retry_fails_with_def calm_env_def)
  show ?thesis
    using formatString_empty_on_builder_failure
        [OF 1, of empty_world "- 1" None Va_spent]
      formatString_empty_on_builder_failure
        [OF 2, of empty_world "- 1" None "Va_active []"]
      formatString_empty_on_builder_failure [OF 3, of empty_world]
      run_retry_fails_with [of 0] run_malloc_refused 1 2 3
    by (simp add: calm_env_def)
qed

end
